theory Spec2Isabelle
  imports Main
begin

text \<open>
  The repository wraps machine-learning pipelines; its one routine with logic of its own is
  \<open>convert_to_usdz\<close> in \<open>shap_e_generator.py\<close>, which reads a triangle mesh from an OBJ
  file and packs a USD document describing it into a zip archive. This theory embeds
  \<open>convert_to_usdz\<close>: the line reader and the document are pure functions on strings,
  the file operations are functions on an explicit file system that return the exception
  raised or the value, and every \<open>try\<close> with its \<open>except\<close> clauses is a case
  distinction on that result.

  What stands outside the function is a parameter (the record \<open>env\<close>): \<open>float\<close> and the
  formatting of floats, the external \<open>usdzconvert\<close> tool, the size of the deflated
  archive, the name of the temporary file, and which step fails: a file operation or a
  write to \<open>stderr\<close>. Of the writes to \<open>stderr\<close>, the two of the last handler
  (\<open>print\<close> and \<open>traceback.print_exc\<close>) are steps that may raise, since no \<open>try\<close>
  encloses them and an exception there leaves the function; the diagnostic printed at the
  geometry check stands inside the second \<open>try\<close> and is taken to succeed. Imports of
  standard modules are taken to succeed. Text files are written as on POSIX systems,
  \<open>\n\<close> unchanged.
\<close>

section \<open>Python string primitives used by the OBJ reader\<close>

text \<open>
  A character is a Unicode code point below 256, held in a \<^typ>\<open>char\<close>. On that range
  \<open>str.isspace\<close> holds exactly for the twelve code points listed, and the only decimal
  digits are \<open>0\<close> to \<open>9\<close>.
\<close>

definition isspace :: "char \<Rightarrow> bool" where
  "isspace c = (of_char c \<in> {9, 10, 11, 12, 13, 28, 29, 30, 31, 32, 133, 160 :: nat})"

definition isdigit :: "char \<Rightarrow> bool" where
  "isdigit c = (48 \<le> (of_char c :: nat) \<and> (of_char c :: nat) \<le> 57)"

definition digit_val :: "char \<Rightarrow> nat" where
  "digit_val c = of_char c - 48"

text \<open>\<open>s.strip()\<close>: whitespace removed at both ends.\<close>

definition strip :: "string \<Rightarrow> string" where
  "strip s = rev (dropWhile isspace (rev (dropWhile isspace s)))"

text \<open>\<open>s.startswith(p)\<close>.\<close>

definition startswith :: "string \<Rightarrow> string \<Rightarrow> bool" where
  "startswith s p = (take (length p) s = p)"

text \<open>
  \<open>s.split()\<close> without arguments: the maximal runs of non-whitespace characters, in
  order. The first argument of \<open>split_from\<close> is the run read so far.
\<close>

fun split_from :: "string \<Rightarrow> string \<Rightarrow> string list" where
  "split_from w [] = (if w = [] then [] else [w])"
| "split_from w (c # cs) =
     (if isspace c then (if w = [] then split_from [] cs else w # split_from [] cs)
      else split_from (w @ [c]) cs)"

definition split_ws :: "string \<Rightarrow> string list" where
  "split_ws s = split_from [] s"

text \<open>
  \<open>s.split(d)\<close> for a one-character separator: every field, empty ones included, so the
  result is never empty.
\<close>

fun split_on :: "char \<Rightarrow> string \<Rightarrow> string \<Rightarrow> string list" where
  "split_on d w [] = [w]"
| "split_on d w (c # cs) =
     (if c = d then w # split_on d [] cs else split_on d (w @ [c]) cs)"

definition split_sep :: "char \<Rightarrow> string \<Rightarrow> string list" where
  "split_sep d s = split_on d [] s"

text \<open>\<open>sep.join(xs)\<close>.\<close>

fun join :: "string \<Rightarrow> string list \<Rightarrow> string" where
  "join sep [] = []"
| "join sep [x] = x"
| "join sep (x # y # ys) = x @ sep @ join sep (y # ys)"

subsection \<open>Exceptions\<close>

text \<open>
  The exception classes that the operations of \<open>convert_to_usdz\<close> raise. All of them
  derive from \<open>Exception\<close>; \<open>UnicodeDecodeError\<close> derives from \<open>ValueError\<close> and
  \<open>FileNotFoundError\<close>, \<open>FileExistsError\<close> from \<open>OSError\<close>. Signals that are not
  \<open>Exception\<close>s (a keyboard interrupt, interpreter exit) are not modelled.
\<close>

datatype exn = ValueError | IndexError | UnicodeDecodeError
  | OSError | FileNotFoundError | FileExistsError | TimeoutExpired

fun isinstance :: "exn \<Rightarrow> exn \<Rightarrow> bool" where
  "isinstance UnicodeDecodeError ValueError = True"
| "isinstance FileNotFoundError OSError = True"
| "isinstance FileExistsError OSError = True"
| "isinstance e c = (e = c)"

text \<open>\<open>except (c1, c2, ...)\<close>: does the clause catch \<open>e\<close>?\<close>

definition catches :: "exn list \<Rightarrow> exn \<Rightarrow> bool" where
  "catches cs e = list_ex (isinstance e) cs"

subsection \<open>\<open>int(s)\<close> and \<open>str(i)\<close>\<close>

text \<open>
  \<open>int(s)\<close> in base 10: surrounding whitespace is dropped, one sign is allowed, then
  digits follow, with single underscores allowed between two digits. Anything else raises
  \<open>ValueError\<close>. The whitespace \<open>int\<close> drops is not that of \<open>str.strip\<close>: the four
  separators \<open>U+001C\<close> to \<open>U+001F\<close> are whitespace for \<open>strip\<close> and an error for
  \<open>int\<close>, so \<open>int_space\<close> holds for the remaining eight code points. \<open>count_digits\<close> is the number of digit characters, which the interpreter
  compares with its limit \<open>maxd\<close> (\<open>sys.get_int_max_str_digits()\<close>; 0 switches the limit
  off) and raises \<open>ValueError\<close> beyond it.
\<close>

fun parse_digits :: "nat \<Rightarrow> string \<Rightarrow> nat option" where
  "parse_digits acc [] = Some acc"
| "parse_digits acc (c # cs) =
     (if isdigit c then parse_digits (10 * acc + digit_val c) cs
      else if c = CHR ''_'' then
        (case cs of
           [] \<Rightarrow> None
         | d # ds \<Rightarrow> if isdigit d then parse_digits (10 * acc + digit_val d) ds else None)
      else None)"

definition count_digits :: "string \<Rightarrow> nat" where
  "count_digits s = length (filter isdigit s)"

definition int_space :: "char \<Rightarrow> bool" where
  "int_space c = (of_char c \<in> {9, 10, 11, 12, 13, 32, 133, 160 :: nat})"

definition py_int :: "nat \<Rightarrow> string \<Rightarrow> exn + int" where
  "py_int maxd s =
     (let t = rev (dropWhile int_space (rev (dropWhile int_space s)));
          neg = (case t of [] \<Rightarrow> False | c # _ \<Rightarrow> c = CHR ''-'');
          body = (case t of [] \<Rightarrow> []
                  | c # cs \<Rightarrow> if c = CHR ''-'' \<or> c = CHR ''+'' then cs else t)
      in case body of
           [] \<Rightarrow> Inl ValueError
         | c # cs \<Rightarrow>
             if \<not> isdigit c then Inl ValueError
             else (case parse_digits (digit_val c) cs of
                     None \<Rightarrow> Inl ValueError
                   | Some n \<Rightarrow>
                       if 0 < maxd \<and> maxd < count_digits body then Inl ValueError
                       else Inr (if neg then - int n else int n)))"

text \<open>\<open>str(i)\<close>: the decimal digits, most significant first, after a minus sign if any.\<close>

function str_nat :: "nat \<Rightarrow> string" where
  "str_nat n =
     (if n < 10 then [char_of (48 + n)]
      else str_nat (n div 10) @ [char_of (48 + n mod 10)])"
  by pat_completeness auto
termination
  by (relation "measure id") auto

declare str_nat.simps [simp del]

definition str_int :: "int \<Rightarrow> string" where
  "str_int i = (if i < 0 then CHR ''-'' # str_nat (nat (- i)) else str_nat (nat i))"

section \<open>The file system and the environment\<close>

text \<open>
  A file holds text, a complete zip archive (its entries as name and data), or an archive
  whose writing was cut short, which lacks its entry or a part of it. \<open>fsize\<close> is what
  \<open>os.path.getsize\<close> reports.
\<close>

datatype content = Text string | Archive "(string \<times> string) list" | Partial

record fnode =
  content :: content
  fsize :: nat

type_synonym fsys = "string \<Rightarrow> fnode option"

text \<open>
  The input/output steps of the fallback path at which the operating system may fail: the
  six file operations of the second \<open>try\<close>, and the two writes to \<open>stderr\<close> of its
  handler, \<open>print(..., file=sys.stderr)\<close> and \<open>traceback.print_exc()\<close> (on a closed
  stream both raise \<open>ValueError\<close>, on a broken one \<open>OSError\<close>).
\<close>

datatype io = OpenObj | TempCreate | TempWrite | ZipOpen | ZipWrite | Unlink
  | PrintError | PrintTraceback

text \<open>
  What \<open>convert_to_usdz\<close> takes from outside: \<open>float(s)\<close> (\<open>None\<close> is \<open>ValueError\<close>)
  and the text that formatting a float in an f-string gives, over an arbitrary type \<open>'f\<close> of
  floats; the interpreter's digit limit for \<open>int\<close>; the outcome of running the external
  \<open>usdzconvert\<close> tool (the exception \<open>subprocess.run\<close> raises or the return code, and
  whatever the tool did to the file system); the name \<open>NamedTemporaryFile\<close> picks; the
  size in bytes of the deflated archive holding one entry with the given data; the size
  in bytes of the destination that a write of the archive leaves when it raises (whatever
  had been written by then, any number); and the steps at which the operating system
  raises.
\<close>

record 'f env =
  float_parse :: "string \<Rightarrow> 'f option"
  float_repr :: "'f \<Rightarrow> string"
  int_max_str_digits :: nat
  usdzconvert :: "string \<Rightarrow> string \<Rightarrow> fsys \<Rightarrow> (exn + int) \<times> fsys"
  tmp_name :: string
  zip_size :: "string \<Rightarrow> nat"
  partial_size :: nat
  fault :: "io \<Rightarrow> exn option"

definition py_float :: "'f env \<Rightarrow> string \<Rightarrow> exn + 'f" where
  "py_float env s = (case float_parse env s of None \<Rightarrow> Inl ValueError | Some x \<Rightarrow> Inr x)"

section \<open>Reading the OBJ lines\<close>

text \<open>
  The two lists the loop fills: the texts of the vertices as they go into the document,
  and the flat list of the 0-based vertex indices, three for each face.
\<close>

record mesh =
  vertices :: "string list"
  faces :: "int list"

text \<open>
  \<open>x, y, z = float(parts[1]), float(parts[2]), float(parts[3])\<close> and the text appended
  to \<open>vertices\<close>. The caller has checked \<open>len(parts) >= 4\<close>.
\<close>

definition vertex_text :: "'f env \<Rightarrow> string list \<Rightarrow> exn + string" where
  "vertex_text env parts =
     (case py_float env (parts ! 1) of
        Inl e \<Rightarrow> Inl e
      | Inr x \<Rightarrow>
          (case py_float env (parts ! 2) of
             Inl e \<Rightarrow> Inl e
           | Inr y \<Rightarrow>
               (case py_float env (parts ! 3) of
                  Inl e \<Rightarrow> Inl e
                | Inr z \<Rightarrow>
                    Inr (''('' @ float_repr env x @ '', '' @ float_repr env y @ '', ''
                         @ float_repr env z @ '')''))))"

text \<open>
  \<open>int(p.split('/')[0]) - 1\<close>: the field before the first slash, as an integer, made
  0-based.
\<close>

definition v_idx :: "nat \<Rightarrow> string \<Rightarrow> exn + int" where
  "v_idx maxd p =
     (case split_sep (CHR ''/'') p of
        [] \<Rightarrow> Inl IndexError
      | s # _ \<Rightarrow> (case py_int maxd s of Inl e \<Rightarrow> Inl e | Inr k \<Rightarrow> Inr (k - 1)))"

text \<open>
  The loop \<open>for p in parts[:3]\<close> over the fields still to read, with \<open>n = len(vertices)\<close>
  and the list \<open>face_verts\<close> built so far.
\<close>

fun face_loop :: "nat \<Rightarrow> nat \<Rightarrow> string list \<Rightarrow> int list \<Rightarrow> exn + int list" where
  "face_loop maxd n [] face_verts = Inr face_verts"
| "face_loop maxd n (p # ps) face_verts =
     (case v_idx maxd p of
        Inl e \<Rightarrow> Inl e
      | Inr i \<Rightarrow>
          if 0 \<le> i \<and> i < int n then face_loop maxd n ps (face_verts @ [i])
          else face_loop maxd n ps face_verts)"

text \<open>One iteration of \<open>for line in obj_lines\<close>.\<close>

definition parse_line :: "'f env \<Rightarrow> mesh \<Rightarrow> string \<Rightarrow> exn + mesh" where
  "parse_line env m raw =
     (let line = strip raw in
      if line = [] \<or> startswith line ''#'' then Inr m
      else if startswith line ''v '' then
        (let parts = split_ws line in
         if 4 \<le> length parts then
           (case vertex_text env parts of
              Inl e \<Rightarrow> if catches [ValueError] e then Inr m else Inl e
            | Inr v \<Rightarrow> Inr (m\<lparr>vertices := vertices m @ [v]\<rparr>))
         else Inr m)
      else if startswith line ''f '' then
        (let parts = drop 1 (split_ws line) in
         if 3 \<le> length parts then
           (case face_loop (int_max_str_digits env) (length (vertices m)) (take 3 parts) [] of
              Inl e \<Rightarrow> if catches [ValueError, IndexError] e then Inr m else Inl e
            | Inr face_verts \<Rightarrow>
                if length face_verts = 3 then Inr (m\<lparr>faces := faces m @ face_verts\<rparr>)
                else Inr m)
         else Inr m)
      else Inr m)"

fun parse_lines :: "'f env \<Rightarrow> mesh \<Rightarrow> string list \<Rightarrow> exn + mesh" where
  "parse_lines env m [] = Inr m"
| "parse_lines env m (l # ls) =
     (case parse_line env m l of Inl e \<Rightarrow> Inl e | Inr m' \<Rightarrow> parse_lines env m' ls)"

definition parse_obj :: "'f env \<Rightarrow> string list \<Rightarrow> exn + mesh" where
  "parse_obj env obj_lines = parse_lines env \<lparr>vertices = [], faces = []\<rparr> obj_lines"

section \<open>The USD document\<close>

definition LF :: char where
  "LF = CHR 0x0A"

definition CR :: char where
  "CR = CHR 0x0D"

definition DQ :: char where
  "DQ = CHR 0x22"

text \<open>The separator of the three arrays: a comma, a line feed and twelve spaces.\<close>

definition array_sep :: string where
  "array_sep = '','' @ [LF] @ ''            ''"

definition unlines :: "string list \<Rightarrow> string" where
  "unlines ls = concat (map (\<lambda>l. l @ [LF]) ls)"

definition face_vertex_counts :: "mesh \<Rightarrow> string list" where
  "face_vertex_counts m = replicate (length (faces m) div 3) ''3''"

definition face_vertex_indices :: "mesh \<Rightarrow> string list" where
  "face_vertex_indices m = map str_int (faces m)"

definition usd_content :: "mesh \<Rightarrow> string" where
  "usd_content m = unlines
     [''#usda 1.0'',
      ''('',
      ''    defaultPrim = '' @ [DQ] @ ''Root'' @ [DQ],
      ''    metersPerUnit = 1'',
      ''    upAxis = '' @ [DQ] @ ''Y'' @ [DQ],
      '')'',
      '''',
      ''def Xform '' @ [DQ] @ ''Root'' @ [DQ],
      ''{'',
      ''    def Mesh '' @ [DQ] @ ''Mesh'' @ [DQ],
      ''    {'',
      ''        int[] faceVertexCounts = ['' @ join array_sep (face_vertex_counts m) @ '']'',
      ''        int[] faceVertexIndices = ['' @ join array_sep (face_vertex_indices m) @ '']'',
      ''        point3f[] points = ['' @ join array_sep (vertices m) @ '']'',
      ''        normal3f[] normals = []'',
      ''        texCoord2f[] primvars:st = []'',
      ''    }'',
      ''}'']"

section \<open>Input and output\<close>

text \<open>
  \<open>f.readlines()\<close> of a file opened in text mode: the text cut after every line end, each
  of \<open>\n\<close>, \<open>\r\n\<close> and \<open>\r\<close> read as \<open>\n\<close>. The first argument is the line read so far.
\<close>

fun readlines_from :: "string \<Rightarrow> string \<Rightarrow> string list" where
  "readlines_from w [] = (if w = [] then [] else [w])"
| "readlines_from w (c # cs) =
     (if c = LF then (w @ [LF]) # readlines_from [] cs
      else if c = CR then
        (case cs of
           [] \<Rightarrow> [w @ [LF]]
         | d # ds \<Rightarrow>
             if d = LF then (w @ [LF]) # readlines_from [] ds
             else (w @ [LF]) # readlines_from [] cs)
      else readlines_from (w @ [c]) cs)"

definition readlines :: "string \<Rightarrow> string list" where
  "readlines s = readlines_from [] s"

text \<open>
  \<open>with open(obj_path, 'r') as f: obj_lines = f.readlines()\<close>. A missing file raises
  \<open>FileNotFoundError\<close>, a file that is not text raises \<open>UnicodeDecodeError\<close>. The file
  system is not changed.
\<close>

definition open_readlines :: "'f env \<Rightarrow> string \<Rightarrow> fsys \<Rightarrow> exn + string list" where
  "open_readlines env p fs =
     (case fault env OpenObj of
        Some e \<Rightarrow> Inl e
      | None \<Rightarrow>
          (case fs p of
             None \<Rightarrow> Inl FileNotFoundError
           | Some f \<Rightarrow>
               (case content f of
                  Text s \<Rightarrow> Inr (readlines s)
                | _ \<Rightarrow> Inl UnicodeDecodeError)))"

text \<open>
  \<open>with tempfile.NamedTemporaryFile(mode='w', suffix='.usd', delete=False, ...) as tmp_usd:
  tmp_usd.write(usd_content); tmp_usd_path = tmp_usd.name\<close>. The file is created under
  the name \<open>tmp_name env\<close>, which must not be in use (with no usable name the creation
  raises \<open>FileExistsError\<close>), and \<open>delete=False\<close> keeps it after the block, also when
  the write raises.
\<close>

definition write_temp :: "'f env \<Rightarrow> string \<Rightarrow> fsys \<Rightarrow> (exn + string) \<times> fsys" where
  "write_temp env data fs =
     (case fault env TempCreate of
        Some e \<Rightarrow> (Inl e, fs)
      | None \<Rightarrow>
          if fs (tmp_name env) \<noteq> None then (Inl FileExistsError, fs)
          else
            (case fault env TempWrite of
               Some e \<Rightarrow> (Inl e, fs(tmp_name env \<mapsto> \<lparr>content = Text [], fsize = 0\<rparr>))
             | None \<Rightarrow>
                 (Inr (tmp_name env),
                  fs(tmp_name env \<mapsto> \<lparr>content = Text data, fsize = length data\<rparr>))))"

text \<open>
  \<open>with zipfile.ZipFile(usdz_path, 'w', zipfile.ZIP_DEFLATED) as usdz:
  usdz.write(src, arcname)\<close>. Opening in mode \<open>'w'\<close> creates or truncates the
  destination; the entry's data is read from the file \<open>src\<close>; when the write raises, the
  destination keeps what was written until then and what closing the archive adds,
  \<open>partial_size env\<close> bytes.
\<close>

definition write_zip :: "'f env \<Rightarrow> string \<Rightarrow> string \<Rightarrow> string \<Rightarrow> fsys \<Rightarrow> (exn + unit) \<times> fsys" where
  "write_zip env usdz_path src arcname fs =
     (case fault env ZipOpen of
        Some e \<Rightarrow> (Inl e, fs)
      | None \<Rightarrow>
          (let fs1 = fs(usdz_path \<mapsto> \<lparr>content = Partial, fsize = 0\<rparr>);
               cut = fs(usdz_path \<mapsto> \<lparr>content = Partial, fsize = partial_size env\<rparr>) in
           case fault env ZipWrite of
             Some e \<Rightarrow> (Inl e, cut)
           | None \<Rightarrow>
               (case fs1 src of
                  None \<Rightarrow> (Inl FileNotFoundError, cut)
                | Some f \<Rightarrow>
                    (case content f of
                       Text data \<Rightarrow>
                         (Inr (),
                          fs1(usdz_path \<mapsto>
                            \<lparr>content = Archive [(arcname, data)], fsize = zip_size env data\<rparr>))
                     | _ \<Rightarrow> (Inl OSError, cut)))))"

text \<open>\<open>os.unlink(p)\<close>.\<close>

definition unlink :: "'f env \<Rightarrow> string \<Rightarrow> fsys \<Rightarrow> (exn + unit) \<times> fsys" where
  "unlink env p fs =
     (case fault env Unlink of
        Some e \<Rightarrow> (Inl e, fs)
      | None \<Rightarrow> if fs p = None then (Inl FileNotFoundError, fs) else (Inr (), fs(p := None)))"

text \<open>\<open>os.path.exists(p)\<close> and \<open>os.path.getsize(p)\<close>.\<close>

definition path_exists :: "fsys \<Rightarrow> string \<Rightarrow> bool" where
  "path_exists fs p = (fs p \<noteq> None)"

definition getsize :: "fsys \<Rightarrow> string \<Rightarrow> exn + nat" where
  "getsize fs p = (case fs p of None \<Rightarrow> Inl FileNotFoundError | Some f \<Rightarrow> Inr (fsize f))"

text \<open>\<open>os.path.exists(usdz_path) and os.path.getsize(usdz_path) > 1000\<close>.\<close>

definition size_guard :: "fsys \<Rightarrow> string \<Rightarrow> exn + bool" where
  "size_guard fs usdz_path =
     (if path_exists fs usdz_path then
        (case getsize fs usdz_path of Inl e \<Rightarrow> Inl e | Inr n \<Rightarrow> Inr (1000 < n))
      else Inr False)"

section \<open>\<open>convert_to_usdz\<close>\<close>

text \<open>
  The body of the first \<open>try\<close>: the external tool is run; \<open>Inr True\<close> is \<open>return True\<close>,
  \<open>Inr False\<close> is leaving the block without returning.
\<close>

definition tool_attempt :: "'f env \<Rightarrow> string \<Rightarrow> string \<Rightarrow> fsys \<Rightarrow> (exn + bool) \<times> fsys" where
  "tool_attempt env obj_path usdz_path fs =
     (case usdzconvert env obj_path usdz_path fs of
        (Inl e, fs1) \<Rightarrow> (Inl e, fs1)
      | (Inr returncode, fs1) \<Rightarrow>
          if returncode = 0 then
            (case size_guard fs1 usdz_path of
               Inl e \<Rightarrow> (Inl e, fs1)
             | Inr b \<Rightarrow> (Inr b, fs1))
          else (Inr False, fs1))"

text \<open>
  The body of the second \<open>try\<close>: the fallback that writes the archive itself. Where the
  geometry check fails, the body prints a diagnostic to \<open>stderr\<close> (taken to succeed) and
  returns False.
\<close>

definition fallback :: "'f env \<Rightarrow> string \<Rightarrow> string \<Rightarrow> fsys \<Rightarrow> (exn + bool) \<times> fsys" where
  "fallback env obj_path usdz_path fs =
     (case open_readlines env obj_path fs of
        Inl e \<Rightarrow> (Inl e, fs)
      | Inr obj_lines \<Rightarrow>
          (case parse_obj env obj_lines of
             Inl e \<Rightarrow> (Inl e, fs)
           | Inr m \<Rightarrow>
               if vertices m = [] \<or> faces m = [] then (Inr False, fs)
               else
                 (case write_temp env (usd_content m) fs of
                    (Inl e, fs1) \<Rightarrow> (Inl e, fs1)
                  | (Inr tmp_usd_path, fs1) \<Rightarrow>
                      (case write_zip env usdz_path tmp_usd_path ''model.usd'' fs1 of
                         (Inl e, fs2) \<Rightarrow> (Inl e, fs2)
                       | (Inr _, fs2) \<Rightarrow>
                           (case unlink env tmp_usd_path fs2 of
                              (Inl e, fs3) \<Rightarrow> (Inl e, fs3)
                            | (Inr _, fs3) \<Rightarrow>
                                (case size_guard fs3 usdz_path of
                                   Inl e \<Rightarrow> (Inl e, fs3)
                                 | Inr b \<Rightarrow> (Inr b, fs3)))))))"

text \<open>Every exception class of the model derives from \<open>Exception\<close>.\<close>

fun is_Exception :: "exn \<Rightarrow> bool" where
  "is_Exception e = True"

text \<open>
  The statements of the handler \<open>except Exception as e\<close> before its \<open>return False\<close>:
  \<open>print(f"USDZ conversion error: {e}", file=sys.stderr)\<close>, then
  \<open>traceback.print_exc()\<close>. The first of them that raises ends the handler, and its
  exception is the one that goes on.
\<close>

definition report_error :: "'f env \<Rightarrow> exn + unit" where
  "report_error env =
     (case fault env PrintError of
        Some e \<Rightarrow> Inl e
      | None \<Rightarrow> (case fault env PrintTraceback of Some e \<Rightarrow> Inl e | None \<Rightarrow> Inr ()))"

text \<open>
  The second \<open>try\<close> with its handler: an exception of the body is caught, the handler
  reports it and returns False; an exception raised by the report itself is not caught by
  anything and leaves the function.
\<close>

definition fallback_caught :: "'f env \<Rightarrow> string \<Rightarrow> string \<Rightarrow> fsys \<Rightarrow> (exn + bool) \<times> fsys" where
  "fallback_caught env obj_path usdz_path fs =
     (case fallback env obj_path usdz_path fs of
        (Inl e, fs') \<Rightarrow>
          if is_Exception e then
            (case report_error env of
               Inl e' \<Rightarrow> (Inl e', fs')
             | Inr _ \<Rightarrow> (Inr False, fs'))
          else (Inl e, fs')
      | (Inr b, fs') \<Rightarrow> (Inr b, fs'))"

text \<open>
  The whole function: the first \<open>try\<close> with its two handlers, both \<open>pass\<close>, then the
  second. The result is the exception that reaches the caller or the boolean returned,
  with the file system as it is then.
\<close>

definition convert_to_usdz :: "'f env \<Rightarrow> string \<Rightarrow> string \<Rightarrow> fsys \<Rightarrow> (exn + bool) \<times> fsys" where
  "convert_to_usdz env obj_path usdz_path fs =
     (case tool_attempt env obj_path usdz_path fs of
        (Inr True, fs1) \<Rightarrow> (Inr True, fs1)
      | (Inr False, fs1) \<Rightarrow> fallback_caught env obj_path usdz_path fs1
      | (Inl e, fs1) \<Rightarrow>
          if catches [FileNotFoundError, TimeoutExpired] e then
            fallback_caught env obj_path usdz_path fs1
          else if is_Exception e then fallback_caught env obj_path usdz_path fs1
          else (Inl e, fs1))"

section \<open>Notions for stating the properties\<close>

text \<open>
  The lines that add to the mesh, described on the text of the line alone and not through
  the loop: \<open>parse_line_eq\<close> below proves that the loop does exactly this. A vertex line
  starts with \<open>v\<close> and a space, has three fields after the marker and \<open>float\<close> reads all
  three. A face line starts with \<open>f\<close> and a space; its index fields are the fields after
  the marker. A field resolves against \<open>n\<close> vertices when \<open>v_idx\<close> gives an index \<open>i\<close>
  with \<open>0 \<le> i < n\<close>. A face line is retained when it has three fields and its first three
  fields resolve against the vertices read so far.
\<close>

definition vertex_fields :: "string \<Rightarrow> string list" where
  "vertex_fields raw = split_ws (strip raw)"

definition is_vertex_line :: "'f env \<Rightarrow> string \<Rightarrow> bool" where
  "is_vertex_line env raw =
     (startswith (strip raw) ''v '' \<and> 4 \<le> length (vertex_fields raw) \<and>
      float_parse env (vertex_fields raw ! 1) \<noteq> None \<and>
      float_parse env (vertex_fields raw ! 2) \<noteq> None \<and>
      float_parse env (vertex_fields raw ! 3) \<noteq> None)"

definition is_face_line :: "string \<Rightarrow> bool" where
  "is_face_line raw = startswith (strip raw) ''f ''"

definition face_fields :: "string \<Rightarrow> string list" where
  "face_fields raw = drop 1 (split_ws (strip raw))"

definition resolves :: "nat \<Rightarrow> nat \<Rightarrow> string \<Rightarrow> bool" where
  "resolves maxd n p = (case v_idx maxd p of Inl e \<Rightarrow> False | Inr i \<Rightarrow> 0 \<le> i \<and> i < int n)"

definition retained_face :: "nat \<Rightarrow> nat \<Rightarrow> string \<Rightarrow> bool" where
  "retained_face maxd n raw =
     (is_face_line raw \<and> 3 \<le> length (face_fields raw) \<and>
      list_all (resolves maxd n) (take 3 (face_fields raw)))"

text \<open>The text a vertex line adds and the three indices a retained face line adds.\<close>

definition vertex_of :: "'f env \<Rightarrow> string \<Rightarrow> string" where
  "vertex_of env raw = (case vertex_text env (vertex_fields raw) of Inl e \<Rightarrow> [] | Inr v \<Rightarrow> v)"

definition idx_of :: "nat \<Rightarrow> string \<Rightarrow> int" where
  "idx_of maxd p = (case v_idx maxd p of Inl e \<Rightarrow> 0 | Inr i \<Rightarrow> i)"

definition face_of :: "nat \<Rightarrow> string \<Rightarrow> int list" where
  "face_of maxd raw = map (idx_of maxd) (take 3 (face_fields raw))"

text \<open>
  The number of vertex lines of an input, and the number of its face lines that are
  retained, each against the number \<open>n\<close> of vertex lines before it.
\<close>

definition vertex_count :: "'f env \<Rightarrow> string list \<Rightarrow> nat" where
  "vertex_count env ls = length (filter (is_vertex_line env) ls)"

fun retained_count :: "'f env \<Rightarrow> nat \<Rightarrow> string list \<Rightarrow> nat" where
  "retained_count env n [] = 0"
| "retained_count env n (l # ls) =
     (if is_vertex_line env l then retained_count env (Suc n) ls
      else if retained_face (int_max_str_digits env) n l then Suc (retained_count env n ls)
      else retained_count env n ls)"

text \<open>The lines as \<open>readlines\<close> returns them, each with its line end.\<close>

definition terminated :: "string list \<Rightarrow> string list" where
  "terminated ls = map (\<lambda>l. l @ [LF]) ls"

text \<open>
  No file operation of the fallback path fails; the archive the fallback writes for a
  document.
\<close>

definition no_fault :: "'f env \<Rightarrow> bool" where
  "no_fault env = (fault env OpenObj = None \<and> fault env TempCreate = None \<and>
     fault env TempWrite = None \<and> fault env ZipOpen = None \<and> fault env ZipWrite = None \<and>
     fault env Unlink = None)"

definition model_archive :: "'f env \<Rightarrow> string \<Rightarrow> fnode" where
  "model_archive env data =
     \<lparr>content = Archive [(''model.usd'', data)], fsize = zip_size env data\<rparr>"

subsection \<open>Reading the document back\<close>

text \<open>
  The repository writes the document and has no reader for it. To state what the
  specification says of the arrays of a document and of unpacking the archive, a reader
  is defined here from the layout of the document (section 4.1 of the specification: the
  array-valued fields of the mesh node), not from source code. \<open>after mk s\<close> is the text
  that follows the first occurrence of \<open>mk\<close> in \<open>s\<close>. \<open>split_arr sep k cur s\<close> cuts \<open>s\<close>
  at every occurrence of the separator; \<open>k\<close> counts the characters of a separator still
  to skip and \<open>cur\<close> is the element read so far. \<open>read_array name doc\<close> finds
  \<open>name = [\<close> in the document, takes the text up to the closing bracket and cuts it at the
  array separator; an empty text is the empty array.
\<close>

fun after :: "string \<Rightarrow> string \<Rightarrow> string option" where
  "after mk [] = (if mk = [] then Some [] else None)"
| "after mk (c # cs) =
     (if startswith (c # cs) mk then Some (drop (length mk) (c # cs)) else after mk cs)"

fun split_arr :: "string \<Rightarrow> nat \<Rightarrow> string \<Rightarrow> string \<Rightarrow> string list" where
  "split_arr sep k cur [] = [cur]"
| "split_arr sep k cur (c # cs) =
     (if 0 < k then split_arr sep (k - 1) cur cs
      else if sep \<noteq> [] \<and> startswith (c # cs) sep then cur # split_arr sep (length sep - 1) [] cs
      else split_arr sep 0 (cur @ [c]) cs)"

definition read_array :: "string \<Rightarrow> string \<Rightarrow> string list option" where
  "read_array name doc =
     (case after (name @ '' = ['') doc of
        None \<Rightarrow> None
      | Some rest \<Rightarrow>
          (let body = takeWhile (\<lambda>c. c \<noteq> CHR '']'') rest
           in Some (if body = [] then [] else split_arr array_sep 0 [] body)))"

text \<open>
  The text a float is formatted to has no line feed and no closing bracket (Python prints
  a float with digits, a sign, a point, an exponent, or as \<open>inf\<close> or \<open>nan\<close>). An array is
  readable when its elements are not empty and hold neither character.
\<close>

definition repr_ok :: "'f env \<Rightarrow> bool" where
  "repr_ok env = (\<forall>x. LF \<notin> set (float_repr env x) \<and> CHR '']'' \<notin> set (float_repr env x))"

definition readable :: "string list \<Rightarrow> bool" where
  "readable xs = (\<forall>x\<in>set xs. x \<noteq> [] \<and> LF \<notin> set x \<and> CHR '']'' \<notin> set x)"

text \<open>The fixed text of the document before, between and after its three arrays.\<close>

definition doc_head :: string where
  "doc_head = unlines
     [''#usda 1.0'',
      ''('',
      ''    defaultPrim = '' @ [DQ] @ ''Root'' @ [DQ],
      ''    metersPerUnit = 1'',
      ''    upAxis = '' @ [DQ] @ ''Y'' @ [DQ],
      '')'',
      '''',
      ''def Xform '' @ [DQ] @ ''Root'' @ [DQ],
      ''{'',
      ''    def Mesh '' @ [DQ] @ ''Mesh'' @ [DQ],
      ''    {''] @ ''        int[] faceVertexCounts = [''"

definition doc_mid1 :: string where
  "doc_mid1 = '']'' @ [LF] @ ''        int[] faceVertexIndices = [''"

definition doc_mid2 :: string where
  "doc_mid2 = '']'' @ [LF] @ ''        point3f[] points = [''"

definition doc_tail :: string where
  "doc_tail = '']'' @ [LF] @ unlines
     [''        normal3f[] normals = []'',
      ''        texCoord2f[] primvars:st = []'',
      ''    }'',
      ''}'']"

section \<open>Concrete environments and inputs\<close>

text \<open>
  For evaluating the definitions on concrete inputs: \<open>float\<close> and its formatting on plain
  digit strings (\<open>float('12')\<close> prints as \<open>12.0\<close>; other literals are not covered by this
  stand-in and count as \<open>ValueError\<close>), the interpreter's default digit limit, the external
  tool not installed (\<open>subprocess.run\<close> raises \<open>FileNotFoundError\<close>), a temporary name, an
  archive size that bounds the archive from above (the data stored as it is, and 128 bytes
  for the headers of one entry), a write of the archive that, where it raises, has written
  nothing, and no failing step.
\<close>

definition digits_float :: "string \<Rightarrow> nat option" where
  "digits_float s =
     (case s of
        [] \<Rightarrow> None
      | c # cs \<Rightarrow> if list_all isdigit s then parse_digits (digit_val c) cs else None)"

definition no_tool :: "string \<Rightarrow> string \<Rightarrow> fsys \<Rightarrow> (exn + int) \<times> fsys" where
  "no_tool obj_path usdz_path fs = (Inl FileNotFoundError, fs)"

definition env0 :: "nat env" where
  "env0 = \<lparr>float_parse = digits_float,
            float_repr = (\<lambda>n. str_nat n @ ''.0''),
            int_max_str_digits = 4300,
            usdzconvert = no_tool,
            tmp_name = ''/tmp/tmp0a1b2c3d.usd'',
            zip_size = (\<lambda>data. length data + 128),
            partial_size = 0,
            fault = (\<lambda>s. None)\<rparr>"

text \<open>
  Variants: one step of the fallback raises; both writes of the handler raise
  \<open>ValueError\<close>, as they do when \<open>stderr\<close> is closed, and no file operation fails; the
  external tool is installed, exits with code 0 and writes an archive of 4096 bytes; the
  archive the fallback writes takes 2048 bytes.
\<close>

definition env_fault :: "io \<Rightarrow> exn \<Rightarrow> nat env" where
  "env_fault s e = env0\<lparr>fault := (\<lambda>t. if t = s then Some e else None)\<rparr>"

definition env_closed_stderr :: "nat env" where
  "env_closed_stderr =
     env0\<lparr>fault := (\<lambda>t. if t = PrintError \<or> t = PrintTraceback then Some ValueError else None)\<rparr>"

definition good_tool :: "string \<Rightarrow> string \<Rightarrow> fsys \<Rightarrow> (exn + int) \<times> fsys" where
  "good_tool obj_path usdz_path fs =
     (Inr 0, fs(usdz_path \<mapsto> \<lparr>content = Archive [(''model.usdc'', ''PXR-USDC'')], fsize = 4096\<rparr>))"

definition env_tool :: "nat env" where
  "env_tool = env0\<lparr>usdzconvert := good_tool\<rparr>"

definition env_large :: "nat env" where
  "env_large = env0\<lparr>zip_size := (\<lambda>data. 2048)\<rparr>"

text \<open>
  A text file, the file system that holds one text file and nothing else, and the file
  system that holds no file.
\<close>

definition text_file :: "string \<Rightarrow> fnode" where
  "text_file s = \<lparr>content = Text s, fsize = length s\<rparr>"

definition one_file :: "string \<Rightarrow> string \<Rightarrow> fsys" where
  "one_file p s = (\<lambda>q. None)(p \<mapsto> text_file s)"

definition no_files :: fsys where
  "no_files = (\<lambda>q. None)"

text \<open>
  The triangle of the specification's example as the lines of an OBJ file, the mesh read
  from it, the mesh after its three vertex lines, and the file system holding it as
  \<open>m.obj\<close>.
\<close>

definition vertex_lines3 :: "string list" where
  "vertex_lines3 = [''v 0 0 0'', ''v 1 0 0'', ''v 0 1 0'']"

definition triangle_lines :: "string list" where
  "triangle_lines = [''v 0 0 0'', ''v 1 0 0'', ''v 0 1 0'', ''f 1 2 3'']"

definition three_vertices :: mesh where
  "three_vertices =
     \<lparr>vertices = [''(0.0, 0.0, 0.0)'', ''(1.0, 0.0, 0.0)'', ''(0.0, 1.0, 0.0)''], faces = []\<rparr>"

definition triangle_mesh :: mesh where
  "triangle_mesh =
     \<lparr>vertices = [''(0.0, 0.0, 0.0)'', ''(1.0, 0.0, 0.0)'', ''(0.0, 1.0, 0.0)''],
      faces = [0, 1, 2]\<rparr>"

definition triangle_fs :: fsys where
  "triangle_fs = one_file ''m.obj'' (unlines triangle_lines)"


text \<open>
  The triangle followed by a face that is dropped, a vertex line that does not parse and
  a comment, and the file system holding it as \<open>m.obj\<close>.
\<close>

definition mixed_lines :: "string list" where
  "mixed_lines = triangle_lines @ [''f 1 2 99'', ''v 1 x 0'', ''# end'']"

definition mixed_fs :: fsys where
  "mixed_fs = one_file ''m.obj'' (unlines mixed_lines)"

section \<open>Properties of the line reader\<close>

lemma split_on_nonempty: "split_on d w s \<noteq> []"
  by (induction s arbitrary: w) auto

lemma split_on_hd: "hd (split_on d w s) = w @ takeWhile (\<lambda>c. c \<noteq> d) s"
  by (induction s arbitrary: w) auto

lemma py_int_error: "py_int maxd s = Inl e \<Longrightarrow> e = ValueError"
  by (auto simp: py_int_def Let_def split: list.splits if_splits option.splits)

lemma v_idx_takeWhile:
  "v_idx maxd p =
     (case py_int maxd (takeWhile (\<lambda>c. c \<noteq> CHR ''/'') p) of
        Inl e \<Rightarrow> Inl e | Inr k \<Rightarrow> Inr (k - 1))"
proof -
  obtain s ss where "split_sep (CHR ''/'') p = s # ss"
    using split_on_nonempty [of "CHR ''/''" "[]" p]
    by (cases "split_sep (CHR ''/'') p") (auto simp: split_sep_def)
  moreover from this have "s = takeWhile (\<lambda>c. c \<noteq> CHR ''/'') p"
    using split_on_hd [of "CHR ''/''" "[]" p] by (simp add: split_sep_def)
  ultimately show ?thesis by (simp add: v_idx_def)
qed

lemma v_idx_error: "v_idx maxd p = Inl e \<Longrightarrow> e = ValueError"
  by (auto simp: v_idx_takeWhile split: sum.splits dest: py_int_error)

lemma face_loop_Inl: "face_loop maxd n ps acc = Inl e \<Longrightarrow> e = ValueError"
  by (induction ps arbitrary: acc) (auto split: sum.splits if_splits dest: v_idx_error)

lemma face_loop_Inr:
  "face_loop maxd n ps acc = Inr fv \<Longrightarrow>
     fv = acc @ map (idx_of maxd) (filter (resolves maxd n) ps)"
proof (induction ps arbitrary: acc)
  case Nil
  then show ?case by simp
next
  case (Cons p ps)
  show ?case
  proof (cases "v_idx maxd p")
    case (Inl e)
    with Cons.prems show ?thesis by simp
  next
    case (Inr i)
    show ?thesis
    proof (cases "0 \<le> i \<and> i < int n")
      case True
      with Inr Cons.prems have "face_loop maxd n ps (acc @ [i]) = Inr fv" by simp
      from Cons.IH [OF this] True Inr show ?thesis
        by (simp add: resolves_def idx_of_def)
    next
      case False
      with Inr Cons.prems have "face_loop maxd n ps acc = Inr fv" by auto
      from Cons.IH [OF this] False Inr show ?thesis
        by (auto simp: resolves_def idx_of_def)
    qed
  qed
qed

lemma face_loop_all:
  "list_all (resolves maxd n) ps \<Longrightarrow> face_loop maxd n ps acc = Inr (acc @ map (idx_of maxd) ps)"
  by (induction ps arbitrary: acc)
     (auto simp: resolves_def idx_of_def split: sum.splits if_splits)

lemma face_loop_Inl_not_all:
  "face_loop maxd n ps acc = Inl e \<Longrightarrow> \<not> list_all (resolves maxd n) ps"
  using face_loop_all by fastforce

lemma filter_full: "length (filter P xs) = length xs \<Longrightarrow> list_all P xs"
proof (induction xs)
  case Nil
  then show ?case by simp
next
  case (Cons x xs)
  have le: "length (filter P xs) \<le> length xs" by simp
  show ?case
  proof (cases "P x")
    case True
    with Cons show ?thesis by simp
  next
    case False
    with Cons.prems le show ?thesis by simp
  qed
qed

lemma startswith_f: "startswith line ''f '' \<Longrightarrow> line \<noteq> [] \<and> \<not> startswith line ''#'' \<and> \<not> startswith line ''v ''"
  by (cases line) (auto simp: startswith_def)

lemma startswith_v: "startswith line ''v '' \<Longrightarrow> line \<noteq> [] \<and> \<not> startswith line ''#''"
  by (cases line) (auto simp: startswith_def)

lemma vertex_text_Inr:
  "vertex_text env parts = Inr v \<longleftrightarrow>
     (\<exists>x y z. float_parse env (parts ! 1) = Some x \<and> float_parse env (parts ! 2) = Some y \<and>
        float_parse env (parts ! 3) = Some z \<and>
        v = ''('' @ float_repr env x @ '', '' @ float_repr env y @ '', '' @ float_repr env z @ '')'')"
  by (auto simp: vertex_text_def py_float_def split: option.splits)

lemma vertex_text_Inl:
  "vertex_text env parts = Inl e \<Longrightarrow>
     e = ValueError \<and> (float_parse env (parts ! 1) = None \<or> float_parse env (parts ! 2) = None \<or>
        float_parse env (parts ! 3) = None)"
  by (auto simp: vertex_text_def py_float_def split: option.splits)

lemma parse_line_vertex:
  assumes "is_vertex_line env raw"
  shows "parse_line env m raw = Inr (m\<lparr>vertices := vertices m @ [vertex_of env raw]\<rparr>)"
proof -
  from assms have sw: "startswith (strip raw) ''v ''" and len: "4 \<le> length (split_ws (strip raw))"
    by (auto simp: is_vertex_line_def vertex_fields_def)
  from assms obtain v where v: "vertex_text env (split_ws (strip raw)) = Inr v"
    by (auto simp: is_vertex_line_def vertex_fields_def vertex_text_Inr)
  then have "vertex_of env raw = v" by (simp add: vertex_of_def vertex_fields_def)
  with sw len v startswith_v [OF sw] show ?thesis
    by (simp add: parse_line_def Let_def)
qed

lemma parse_line_face:
  assumes "retained_face (int_max_str_digits env) (length (vertices m)) raw"
  shows "parse_line env m raw = Inr (m\<lparr>faces := faces m @ face_of (int_max_str_digits env) raw\<rparr>)"
proof -
  let ?ps = "take 3 (drop 1 (split_ws (strip raw)))"
  from assms have sw: "startswith (strip raw) ''f ''" and len: "3 \<le> length (drop 1 (split_ws (strip raw)))"
    and all: "list_all (resolves (int_max_str_digits env) (length (vertices m))) ?ps"
    by (auto simp: retained_face_def is_face_line_def face_fields_def)
  have fl: "face_loop (int_max_str_digits env) (length (vertices m)) ?ps [] =
      Inr (face_of (int_max_str_digits env) raw)"
    using face_loop_all [OF all, of "[]"] by (simp add: face_of_def face_fields_def)
  from len have "length (face_of (int_max_str_digits env) raw) = 3"
    by (simp add: face_of_def face_fields_def)
  with sw len fl startswith_f [OF sw] show ?thesis
    by (simp add: parse_line_def Let_def)
qed

lemma parse_line_other:
  assumes "\<not> is_vertex_line env raw"
    and "\<not> retained_face (int_max_str_digits env) (length (vertices m)) raw"
  shows "parse_line env m raw = Inr m"
proof (cases "startswith (strip raw) ''v ''")
  case True
  show ?thesis
  proof (cases "vertex_text env (split_ws (strip raw))")
    case (Inl e)
    from vertex_text_Inl [OF this] have "e = ValueError" by simp
    with Inl True show ?thesis by (simp add: parse_line_def Let_def catches_def)
  next
    case (Inr v)
    with assms(1) True have "\<not> 4 \<le> length (split_ws (strip raw))"
      by (auto simp: is_vertex_line_def vertex_fields_def vertex_text_Inr)
    with True show ?thesis by (simp add: parse_line_def Let_def)
  qed
next
  case nv: False
  show ?thesis
  proof (cases "startswith (strip raw) ''f '' \<and> 3 \<le> length (drop 1 (split_ws (strip raw)))")
    case False
    with nv show ?thesis by (auto simp: parse_line_def Let_def)
  next
    case True
    let ?ps = "take 3 (drop 1 (split_ws (strip raw)))"
    let ?n = "length (vertices m)"
    let ?d = "int_max_str_digits env"
    from True assms(2) have nall: "\<not> list_all (resolves ?d ?n) ?ps"
      by (simp add: retained_face_def is_face_line_def face_fields_def)
    from True have l3: "length ?ps = 3" by simp
    show ?thesis
    proof (cases "face_loop ?d ?n ?ps []")
      case (Inl e)
      from face_loop_Inl [OF this] have "e = ValueError" .
      with Inl True nv show ?thesis by (simp add: parse_line_def Let_def catches_def)
    next
      case (Inr fv)
      from face_loop_Inr [OF this] have fv: "fv = map (idx_of ?d) (filter (resolves ?d ?n) ?ps)" by simp
      have "length fv \<noteq> 3"
      proof
        assume "length fv = 3"
        with fv l3 have "length (filter (resolves ?d ?n) ?ps) = length ?ps" by simp
        from filter_full [OF this] nall show False by simp
      qed
      with Inr True nv show ?thesis by (simp add: parse_line_def Let_def)
    qed
  qed
qed

lemma vertex_not_face: "is_vertex_line env raw \<Longrightarrow> \<not> retained_face maxd n raw"
  by (auto simp: is_vertex_line_def retained_face_def is_face_line_def startswith_def)

lemma parse_line_eq:
  "parse_line env m raw =
     Inr (if is_vertex_line env raw then m\<lparr>vertices := vertices m @ [vertex_of env raw]\<rparr>
          else if retained_face (int_max_str_digits env) (length (vertices m)) raw
            then m\<lparr>faces := faces m @ face_of (int_max_str_digits env) raw\<rparr>
          else m)"
proof (cases "is_vertex_line env raw")
  case True
  then show ?thesis by (simp add: parse_line_vertex)
next
  case nv: False
  show ?thesis
  proof (cases "retained_face (int_max_str_digits env) (length (vertices m)) raw")
    case True
    with nv show ?thesis by (simp add: parse_line_face)
  next
    case False
    with nv show ?thesis by (simp add: parse_line_other)
  qed
qed

lemma face_of_range:
  assumes "retained_face maxd n raw"
  shows "\<forall>i\<in>set (face_of maxd raw). 0 \<le> i \<and> i < int n"
proof -
  from assms have "list_all (resolves maxd n) (take 3 (face_fields raw))"
    by (simp add: retained_face_def)
  then have "\<forall>p\<in>set (take 3 (face_fields raw)). 0 \<le> idx_of maxd p \<and> idx_of maxd p < int n"
    by (auto simp: list_all_iff resolves_def idx_of_def split: sum.splits)
  then show ?thesis by (auto simp: face_of_def)
qed

lemma face_of_length: "retained_face maxd n raw \<Longrightarrow> length (face_of maxd raw) = 3"
  by (simp add: retained_face_def face_of_def)

lemma parse_lines_total: "\<exists>m'. parse_lines env m ls = Inr m'"
  by (induction ls arbitrary: m) (simp_all add: parse_line_eq)

lemma parse_lines_vertices:
  "parse_lines env m ls = Inr m' \<Longrightarrow>
     vertices m' = vertices m @ map (vertex_of env) (filter (is_vertex_line env) ls)"
  by (induction ls arbitrary: m) (auto simp: parse_line_eq split: if_splits)

lemma parse_lines_vertex_count:
  "parse_lines env m ls = Inr m' \<Longrightarrow> length (vertices m') = length (vertices m) + vertex_count env ls"
  by (simp add: parse_lines_vertices vertex_count_def)

lemma parse_lines_faces_length:
  "parse_lines env m ls = Inr m' \<Longrightarrow>
     length (faces m') = length (faces m) + 3 * retained_count env (length (vertices m)) ls"
  by (induction ls arbitrary: m) (auto simp: parse_line_eq face_of_length split: if_splits)

lemma parse_lines_faces_range:
  "parse_lines env m ls = Inr m' \<Longrightarrow>
     \<forall>i\<in>set (faces m'). i \<in> set (faces m) \<or> (0 \<le> i \<and> i < int (length (vertices m')))"
proof (induction ls arbitrary: m)
  case Nil
  then show ?case by simp
next
  case (Cons l ls)
  let ?d = "int_max_str_digits env"
  let ?n = "length (vertices m)"
  obtain m1 where m1: "parse_line env m l = Inr m1"
    by (simp add: parse_line_eq)
  with Cons.prems have rest: "parse_lines env m1 ls = Inr m'" by simp
  from parse_lines_vertex_count [OF rest] have mono: "length (vertices m1) \<le> length (vertices m')"
    by simp
  have step: "\<forall>i\<in>set (faces m1). i \<in> set (faces m) \<or> (0 \<le> i \<and> i < int (length (vertices m1)))"
    using m1 face_of_range [of ?d ?n l] by (auto simp: parse_line_eq split: if_splits)
  show ?case
  proof
    fix i assume "i \<in> set (faces m')"
    with Cons.IH [OF rest] have "i \<in> set (faces m1) \<or> (0 \<le> i \<and> i < int (length (vertices m')))"
      by blast
    with step mono show "i \<in> set (faces m) \<or> (0 \<le> i \<and> i < int (length (vertices m')))"
      by fastforce
  qed
qed

lemma parse_lines_append:
  "parse_lines env m (xs @ ys) =
     (case parse_lines env m xs of Inl e \<Rightarrow> Inl e | Inr m' \<Rightarrow> parse_lines env m' ys)"
  by (induction xs arbitrary: m) (auto split: sum.splits)

lemma parse_obj_total: "\<exists>m. parse_obj env ls = Inr m"
  by (simp add: parse_obj_def parse_lines_total)

lemma parse_obj_snoc:
  assumes "parse_obj env pre = Inr m1"
  shows "parse_obj env (pre @ raw # post) =
     (case parse_line env m1 raw of Inl e \<Rightarrow> Inl e | Inr m2 \<Rightarrow> parse_lines env m2 post)"
  using assms by (simp add: parse_obj_def parse_lines_append)

lemma parse_obj_vertex_count:
  "parse_obj env ls = Inr m \<Longrightarrow> length (vertices m) = vertex_count env ls"
  using parse_lines_vertex_count [of env "\<lparr>vertices = [], faces = []\<rparr>" ls m]
  by (simp add: parse_obj_def)

lemma parse_obj_faces_length:
  "parse_obj env ls = Inr m \<Longrightarrow> length (faces m) = 3 * retained_count env 0 ls"
  using parse_lines_faces_length [of env "\<lparr>vertices = [], faces = []\<rparr>" ls m]
  by (simp add: parse_obj_def)

lemma parse_obj_faces_range:
  "parse_obj env ls = Inr m \<Longrightarrow> \<forall>i\<in>set (faces m). 0 \<le> i \<and> i < int (length (vertices m))"
  using parse_lines_faces_range [of env "\<lparr>vertices = [], faces = []\<rparr>" ls m]
  by (simp add: parse_obj_def)

lemma face_not_vertex: "is_face_line raw \<Longrightarrow> \<not> is_vertex_line env raw"
  by (auto simp: is_vertex_line_def is_face_line_def startswith_def)

lemma dropped_face_line:
  assumes "is_face_line raw" and "\<not> retained_face (int_max_str_digits env) (vertex_count env pre) raw"
  shows "parse_obj env (pre @ raw # post) = parse_obj env (pre @ post)"
proof -
  obtain m1 where m1: "parse_obj env pre = Inr m1" using parse_obj_total by blast
  from parse_obj_vertex_count [OF m1] assms have "parse_line env m1 raw = Inr m1"
    by (simp add: parse_line_eq face_not_vertex)
  with m1 show ?thesis
    by (simp add: parse_obj_def parse_lines_append)
qed

lemma faces_need_vertices:
  assumes "parse_obj env ls = Inr m" and "faces m \<noteq> []"
  shows "vertices m \<noteq> []"
proof
  assume "vertices m = []"
  with parse_obj_faces_range [OF assms(1)] have "\<forall>i\<in>set (faces m). False" by fastforce
  with assms(2) show False by (cases "faces m") auto
qed

lemma nonpositive_never_resolves:
  assumes "py_int d (takeWhile (\<lambda>c. c \<noteq> CHR ''/'') p) = Inr k" and "k \<le> 0"
  shows "\<not> resolves d n p"
  using assms by (simp add: resolves_def v_idx_takeWhile)

lemma resolves_iff:
  "resolves d n p \<longleftrightarrow> (\<exists>i. v_idx d p = Inr i \<and> 0 \<le> i \<and> i < int n)"
  by (cases "v_idx d p") (simp_all add: resolves_def)

lemma retained_face_iff:
  "retained_face d n raw \<longleftrightarrow>
     is_face_line raw \<and> 3 \<le> length (face_fields raw) \<and>
     (\<forall>p\<in>set (take 3 (face_fields raw)). \<exists>i. v_idx d p = Inr i \<and> 0 \<le> i \<and> i < int n)"
  by (simp add: retained_face_def list_all_iff resolves_iff)



lemma isspace_LF: "isspace LF"
  by (simp add: isspace_def LF_def)

lemma strip_LF: "strip (s @ [LF]) = strip s"
proof (cases "\<forall>c\<in>set s. isspace c")
  case True
  then have "\<forall>c\<in>set (s @ [LF]). isspace c"
    by (simp add: isspace_LF)
  with True have a: "dropWhile isspace (s @ [LF]) = []" and b: "dropWhile isspace s = []"
    unfolding dropWhile_eq_Nil_conv by blast+
  show ?thesis unfolding strip_def a b by simp
next
  case False
  then obtain c where "c \<in> set s" and "\<not> isspace c" by blast
  then have "dropWhile isspace (s @ [LF]) = dropWhile isspace s @ [LF]"
    by (simp add: dropWhile_append1)
  then show ?thesis by (simp add: strip_def isspace_LF)
qed

lemma parse_line_LF: "parse_line env m (l @ [LF]) = parse_line env m l"
  by (simp add: parse_line_def strip_LF)

lemma parse_lines_terminated: "parse_lines env m (terminated ls) = parse_lines env m ls"
  by (induction ls arbitrary: m) (auto simp: terminated_def parse_line_LF split: sum.splits)

lemma parse_obj_terminated: "parse_obj env (terminated ls) = parse_obj env ls"
  by (simp add: parse_obj_def parse_lines_terminated)

lemma is_vertex_line_LF: "is_vertex_line env (l @ [LF]) = is_vertex_line env l"
  by (simp add: is_vertex_line_def vertex_fields_def strip_LF)

lemma retained_face_LF: "retained_face d n (l @ [LF]) = retained_face d n l"
  by (simp add: retained_face_def is_face_line_def face_fields_def strip_LF)

lemma vertex_count_terminated: "vertex_count env (terminated ls) = vertex_count env ls"
  by (induction ls) (simp_all add: vertex_count_def terminated_def is_vertex_line_LF)

lemma retained_count_terminated: "retained_count env n (terminated ls) = retained_count env n ls"
  by (induction ls arbitrary: n) (simp_all add: terminated_def is_vertex_line_LF retained_face_LF)

lemma vertex_of_form:
  assumes "is_vertex_line env raw"
  shows "\<exists>x y z. vertex_of env raw =
     ''('' @ float_repr env x @ '', '' @ float_repr env y @ '', '' @ float_repr env z @ '')''"
proof -
  from assms obtain v where v: "vertex_text env (vertex_fields raw) = Inr v"
    by (auto simp: is_vertex_line_def vertex_text_Inr)
  then have "vertex_of env raw = v" by (simp add: vertex_of_def)
  with v show ?thesis by (auto simp: vertex_text_Inr)
qed

lemma parse_obj_vertices_form:
  assumes "parse_obj env ls = Inr m"
  shows "\<forall>v\<in>set (vertices m). \<exists>x y z. v =
     ''('' @ float_repr env x @ '', '' @ float_repr env y @ '', '' @ float_repr env z @ '')''"
proof -
  from assms have "vertices m = map (vertex_of env) (filter (is_vertex_line env) ls)"
    using parse_lines_vertices [of env "\<lparr>vertices = [], faces = []\<rparr>" ls m]
    by (simp add: parse_obj_def)
  then show ?thesis using vertex_of_form [of env] by auto
qed

lemma v_idx_lead:
  "takeWhile (\<lambda>c. c \<noteq> CHR ''/'') p = takeWhile (\<lambda>c. c \<noteq> CHR ''/'') q \<Longrightarrow>
     v_idx maxd p = v_idx maxd q"
  by (simp add: v_idx_takeWhile)

lemma lead_fields:
  "map (takeWhile (\<lambda>c. c \<noteq> CHR ''/'')) ps = map (takeWhile (\<lambda>c. c \<noteq> CHR ''/'')) qs \<Longrightarrow>
     list_all (resolves maxd n) ps = list_all (resolves maxd n) qs \<and>
     map (idx_of maxd) ps = map (idx_of maxd) qs"
proof (induction ps arbitrary: qs)
  case Nil
  then show ?case by simp
next
  case (Cons p ps)
  then obtain q qs' where q: "qs = q # qs'" by (cases qs) auto
  from Cons.prems q have h: "takeWhile (\<lambda>c. c \<noteq> CHR ''/'') p = takeWhile (\<lambda>c. c \<noteq> CHR ''/'') q"
    and t: "map (takeWhile (\<lambda>c. c \<noteq> CHR ''/'')) ps = map (takeWhile (\<lambda>c. c \<noteq> CHR ''/'')) qs'"
    by simp_all
  from v_idx_lead [OF h] have v: "v_idx maxd p = v_idx maxd q" .
  from Cons.IH [OF t] q v show ?case by (simp add: resolves_def idx_of_def)
qed

lemma parse_line_lead:
  assumes "is_face_line raw" and "is_face_line raw'"
    and "3 \<le> length (face_fields raw)" and "3 \<le> length (face_fields raw')"
    and "map (takeWhile (\<lambda>c. c \<noteq> CHR ''/'')) (take 3 (face_fields raw)) =
         map (takeWhile (\<lambda>c. c \<noteq> CHR ''/'')) (take 3 (face_fields raw'))"
  shows "parse_line env m raw = parse_line env m raw'"
proof -
  let ?d = "int_max_str_digits env"
  let ?n = "length (vertices m)"
  from lead_fields [OF assms(5), of ?d ?n]
  have l: "list_all (resolves ?d ?n) (take 3 (face_fields raw)) =
      list_all (resolves ?d ?n) (take 3 (face_fields raw'))"
    and i: "face_of ?d raw = face_of ?d raw'"
    by (simp_all only: face_of_def)
  from assms(1,2,3,4) l have r: "retained_face ?d ?n raw = retained_face ?d ?n raw'"
    by (simp only: retained_face_def)
  have v: "\<not> is_vertex_line env raw" "\<not> is_vertex_line env raw'"
    using assms(1,2) by (simp_all add: face_not_vertex)
  show ?thesis
    by (simp only: parse_line_eq [of env m raw] parse_line_eq [of env m raw'] v r i if_False)
qed

lemma resolves_lead:
  assumes "resolves maxd n p"
  shows "\<exists>k. py_int maxd (takeWhile (\<lambda>c. c \<noteq> CHR ''/'') p) = Inr k \<and>
     idx_of maxd p = k - 1 \<and> 1 \<le> k \<and> k \<le> int n"
proof (cases "py_int maxd (takeWhile (\<lambda>c. c \<noteq> CHR ''/'') p)")
  case (Inl e)
  with assms show ?thesis by (simp add: resolves_def v_idx_takeWhile)
next
  case (Inr k)
  with assms show ?thesis by (simp add: resolves_def idx_of_def v_idx_takeWhile)
qed

lemma retained_leads:
  assumes "retained_face maxd n raw"
  shows "list_all (\<lambda>p. \<exists>k. py_int maxd (takeWhile (\<lambda>c. c \<noteq> CHR ''/'') p) = Inr k \<and>
     idx_of maxd p = k - 1 \<and> 1 \<le> k \<and> k \<le> int n) (take 3 (face_fields raw))"
proof -
  from assms have "list_all (resolves maxd n) (take 3 (face_fields raw))"
    by (simp add: retained_face_def)
  then show ?thesis
    by (rule list.pred_mono_strong) (rule resolves_lead)
qed

section \<open>Properties of the file operations and of the fallback\<close>

lemma size_guard_True:
  "size_guard fs p = Inr True \<longleftrightarrow> (\<exists>f. fs p = Some f \<and> 1000 < fsize f)"
  by (auto simp: size_guard_def path_exists_def getsize_def split: option.splits)

lemma size_guard_returns: "\<exists>b. size_guard fs p = Inr b"
  by (auto simp: size_guard_def path_exists_def getsize_def split: option.splits)

lemma size_guard_eq:
  "size_guard fs p = Inr (case fs p of None \<Rightarrow> False | Some f \<Rightarrow> 1000 < fsize f)"
  by (auto simp: size_guard_def path_exists_def getsize_def split: option.splits)

lemma tool_attempt_True:
  assumes "tool_attempt env obj_path usdz_path fs = (Inr True, fs1)"
  shows "\<exists>f. fs1 usdz_path = Some f \<and> 1000 < fsize f"
  using assms
  by (auto simp: tool_attempt_def size_guard_eq split: prod.splits sum.splits if_splits option.splits)

lemma write_temp_cases:
  assumes "write_temp env d fs = (r, fs1)"
  shows "(\<exists>e. r = Inl e \<and> fs1 = fs) \<or>
         (\<exists>e. r = Inl e \<and> fault env TempWrite = Some e \<and> fs (tmp_name env) = None \<and>
              fs1 = fs(tmp_name env \<mapsto> \<lparr>content = Text [], fsize = 0\<rparr>)) \<or>
         (r = Inr (tmp_name env) \<and> fs (tmp_name env) = None \<and>
              fs1 = fs(tmp_name env \<mapsto> \<lparr>content = Text d, fsize = length d\<rparr>))"
  using assms by (auto simp: write_temp_def split: option.splits if_splits)

lemma write_zip_cases:
  assumes "write_zip env usdz_path src arcname fs = (r, fs1)"
  shows "(\<exists>e. r = Inl e \<and> fault env ZipOpen = Some e \<and> fs1 = fs) \<or>
         (\<exists>e. r = Inl e \<and> fault env ZipWrite = Some e \<and>
              fs1 = fs(usdz_path \<mapsto> \<lparr>content = Partial, fsize = partial_size env\<rparr>)) \<or>
         (\<exists>e. r = Inl e \<and> fault env ZipWrite = None \<and> src = usdz_path \<and>
              fs1 = fs(usdz_path \<mapsto> \<lparr>content = Partial, fsize = partial_size env\<rparr>)) \<or>
         (\<exists>e. r = Inl e \<and> fault env ZipWrite = None \<and> src \<noteq> usdz_path \<and>
              (\<forall>d. map_option content (fs src) \<noteq> Some (Text d)) \<and>
              fs1 = fs(usdz_path \<mapsto> \<lparr>content = Partial, fsize = partial_size env\<rparr>)) \<or>
         (\<exists>d. r = Inr () \<and> src \<noteq> usdz_path \<and> map_option content (fs src) = Some (Text d) \<and>
              fs1 = fs(usdz_path \<mapsto>
                 \<lparr>content = Archive [(arcname, d)], fsize = zip_size env d\<rparr>))"
  using assms
  by (cases "src = usdz_path")
     (auto simp: write_zip_def Let_def split: option.splits content.splits)

lemma unlink_cases:
  assumes "unlink env p fs = (r, fs1)"
  shows "(\<exists>e. r = Inl e \<and> fs1 = fs) \<or> (r = Inr () \<and> fs p \<noteq> None \<and> fs1 = fs(p := None))"
  using assms by (auto simp: unlink_def split: option.splits if_splits)


lemma fallback_geometry:
  assumes "open_readlines env obj_path fs = Inr ls" and "parse_obj env ls = Inr m"
    and "vertices m \<noteq> []" and "faces m \<noteq> []"
    and "no_fault env" and "fs (tmp_name env) = None" and "tmp_name env \<noteq> usdz_path"
  shows "fallback env obj_path usdz_path fs =
     (Inr (1000 < zip_size env (usd_content m)),
      fs(usdz_path \<mapsto> model_archive env (usd_content m)))"
proof -
  let ?d = "usd_content m"
  let ?t = "tmp_name env"
  let ?fs1 = "fs(?t \<mapsto> \<lparr>content = Text ?d, fsize = length ?d\<rparr>)"
  let ?fs2 = "?fs1(usdz_path \<mapsto> model_archive env ?d)"
  from assms have wt: "write_temp env ?d fs = (Inr ?t, ?fs1)"
    by (simp add: write_temp_def no_fault_def)
  from assms have wz: "write_zip env usdz_path ?t ''model.usd'' ?fs1 = (Inr (), ?fs2)"
    by (simp add: write_zip_def no_fault_def model_archive_def Let_def)
  from assms have ul: "unlink env ?t ?fs2 = (Inr (), ?fs2(?t := None))"
    by (simp add: unlink_def no_fault_def)
  from assms have eq: "?fs2(?t := None) = fs(usdz_path \<mapsto> model_archive env ?d)"
    by (auto simp: fun_eq_iff)
  have sg: "size_guard (fs(usdz_path \<mapsto> model_archive env ?d)) usdz_path =
      Inr (1000 < zip_size env ?d)"
    by (simp add: size_guard_def path_exists_def getsize_def model_archive_def)
  from assms(1-4) wt wz ul eq sg show ?thesis
    by (simp add: fallback_def)
qed

text \<open>Every way the fallback can end, with the file system it leaves.\<close>

lemma fallback_cases:
  assumes run: "fallback env obj_path usdz_path fs = (r, fs')" and ne: "tmp_name env \<noteq> usdz_path"
  shows
    "(r \<noteq> Inr True \<and> fs' = fs) \<or>
     (\<exists>e c. r = Inl e \<and> fs (tmp_name env) = None \<and> fs' = fs(tmp_name env \<mapsto> c)) \<or>
     (\<exists>e c. r = Inl e \<and> fault env ZipWrite = Some e \<and> fs (tmp_name env) = None \<and>
        fs' = fs(tmp_name env \<mapsto> c, usdz_path \<mapsto> \<lparr>content = Partial, fsize = partial_size env\<rparr>)) \<or>
     (\<exists>e ls m. r = Inl e \<and> fault env Unlink = Some e \<and> fs (tmp_name env) = None \<and>
        open_readlines env obj_path fs = Inr ls \<and> parse_obj env ls = Inr m \<and>
        fs' = fs(tmp_name env \<mapsto> text_file (usd_content m),
                 usdz_path \<mapsto> model_archive env (usd_content m))) \<or>
     (\<exists>ls m. r = Inr (1000 < zip_size env (usd_content m)) \<and> fs (tmp_name env) = None \<and>
        open_readlines env obj_path fs = Inr ls \<and> parse_obj env ls = Inr m \<and>
        vertices m \<noteq> [] \<and> faces m \<noteq> [] \<and>
        fs' = fs(usdz_path \<mapsto> model_archive env (usd_content m)))"
proof (cases "open_readlines env obj_path fs")
  case (Inl e)
  with run show ?thesis by (auto simp: fallback_def)
next
  case (Inr ls)
  obtain m where m: "parse_obj env ls = Inr m" using parse_obj_total by blast
  show ?thesis
  proof (cases "vertices m = [] \<or> faces m = []")
    case True
    with run Inr m show ?thesis by (auto simp: fallback_def)
  next
    case geo: False
    let ?t = "tmp_name env"
    let ?d = "usd_content m"
    obtain r1 fs1 where wt: "write_temp env ?d fs = (r1, fs1)" by (cases "write_temp env ?d fs")
    from write_temp_cases [OF wt] show ?thesis
    proof (elim disjE exE conjE)
      fix e assume "r1 = Inl e" "fs1 = fs"
      with run Inr m geo wt show ?thesis by (auto simp: fallback_def)
    next
      fix e assume "r1 = Inl e" "fs ?t = None" "fs1 = fs(?t \<mapsto> \<lparr>content = Text [], fsize = 0\<rparr>)"
      with run Inr m geo wt show ?thesis by (auto simp: fallback_def)
    next
      assume c: "r1 = Inr ?t" "fs ?t = None"
        "fs1 = fs(?t \<mapsto> \<lparr>content = Text ?d, fsize = length ?d\<rparr>)"
      obtain r2 fs2 where wz: "write_zip env usdz_path ?t ''model.usd'' fs1 = (r2, fs2)"
        by (cases "write_zip env usdz_path ?t ''model.usd'' fs1")
      from c have src: "map_option content (fs1 ?t) = Some (Text ?d)" by simp
      from write_zip_cases [OF wz] show ?thesis
      proof (elim disjE exE conjE)
        fix e assume "r2 = Inl e" "fault env ZipOpen = Some e" "fs2 = fs1"
        with run Inr m geo wt wz c show ?thesis by (auto simp: fallback_def)
      next
        fix e assume "r2 = Inl e" "fault env ZipWrite = Some e"
          "fs2 = fs1(usdz_path \<mapsto> \<lparr>content = Partial, fsize = partial_size env\<rparr>)"
        with run Inr m geo wt wz c show ?thesis by (auto simp: fallback_def)
      next
        fix e assume "tmp_name env = usdz_path"
        with ne show ?thesis by simp
      next
        fix e assume "\<forall>d. map_option content (fs1 ?t) \<noteq> Some (Text d)"
        with src show ?thesis by blast
      next
        fix d assume ok0: "r2 = Inr ()" "map_option content (fs1 ?t) = Some (Text d)"
          "fs2 = fs1(usdz_path \<mapsto> \<lparr>content = Archive [(''model.usd'', d)], fsize = zip_size env d\<rparr>)"
        with src have "d = ?d" by simp
        with ok0 have ok: "r2 = Inr ()"
          "fs2 = fs1(usdz_path \<mapsto> \<lparr>content = Archive [(''model.usd'', ?d)], fsize = zip_size env ?d\<rparr>)"
          by simp_all
        obtain r3 fs3 where ul: "unlink env ?t fs2 = (r3, fs3)" by (cases "unlink env ?t fs2")
        show ?thesis
        proof (cases "fault env Unlink")
          case None
          with ul ok c ne have r3: "r3 = Inr ()" and fs3: "fs3 = fs2(?t := None)"
            by (auto simp: unlink_def)
          from fs3 ok c ne have eq: "fs3 = fs(usdz_path \<mapsto> model_archive env ?d)"
            by (auto simp: fun_eq_iff model_archive_def)
          have "size_guard fs3 usdz_path = Inr (1000 < zip_size env ?d)"
            by (simp add: eq size_guard_eq model_archive_def)
          with run Inr m geo wt wz c ok ul r3 eq show ?thesis
            by (auto simp: fallback_def)
        next
          case (Some e)
          with ul have "r3 = Inl e" and "fs3 = fs2" by (auto simp: unlink_def)
          with run Inr m geo wt wz c ok ul Some ne show ?thesis
            by (auto simp: fallback_def model_archive_def text_file_def)
        qed
      qed
    qed
  qed
qed

lemma fallback_True:
  assumes "fallback env obj_path usdz_path fs = (Inr True, fs')"
  shows "\<exists>f. fs' usdz_path = Some f \<and> 1000 < fsize f"
  using assms
  by (auto simp: fallback_def size_guard_True split: sum.splits prod.splits if_splits)

lemma fallback_True_tmp:
  assumes run: "fallback env obj_path usdz_path fs = (Inr True, fs')"
  shows "tmp_name env \<noteq> usdz_path"
proof
  assume eq: "tmp_name env = usdz_path"
  show False
  proof (cases "open_readlines env obj_path fs")
    case (Inl e)
    with run show False by (simp add: fallback_def)
  next
    case (Inr ls)
    obtain m where m: "parse_obj env ls = Inr m" using parse_obj_total by blast
    show False
    proof (cases "vertices m = [] \<or> faces m = []")
      case True
      with run Inr m show False by (auto simp: fallback_def)
    next
      case geo: False
      obtain r1 fs1 where wt: "write_temp env (usd_content m) fs = (r1, fs1)"
        by (cases "write_temp env (usd_content m) fs")
      show False
      proof (cases r1)
        case (Inl e)
        with run Inr m geo wt show False by (auto simp: fallback_def)
      next
        case r1: (Inr p)
        with write_temp_cases [OF wt] eq have p: "p = usdz_path" by auto
        obtain r2 fs2 where wz: "write_zip env usdz_path p ''model.usd'' fs1 = (r2, fs2)"
          by (cases "write_zip env usdz_path p ''model.usd'' fs1")
        from write_zip_cases [OF wz] p obtain e where "r2 = Inl e" by auto
        with run Inr m geo wt r1 wz show False by (auto simp: fallback_def)
      qed
    qed
  qed
qed

lemma fallback_True_cases:
  assumes "fallback env obj_path usdz_path fs = (Inr True, fs')"
  shows "\<exists>ls m. open_readlines env obj_path fs = Inr ls \<and> parse_obj env ls = Inr m \<and>
     vertices m \<noteq> [] \<and> faces m \<noteq> [] \<and> 1000 < zip_size env (usd_content m) \<and>
     fs' = fs(usdz_path \<mapsto> model_archive env (usd_content m))"
  using fallback_cases [OF assms fallback_True_tmp [OF assms]] by auto

lemma report_error_cases:
  "report_error env = Inr () \<longleftrightarrow> fault env PrintError = None \<and> fault env PrintTraceback = None"
  "report_error env = Inl e \<longleftrightarrow>
     fault env PrintError = Some e \<or>
     (fault env PrintError = None \<and> fault env PrintTraceback = Some e)"
  by (auto simp: report_error_def split: option.splits)

lemma fallback_caught_eq:
  "fallback_caught env obj_path usdz_path fs =
     (case fallback env obj_path usdz_path fs of
        (Inl e, fs') \<Rightarrow>
          (case report_error env of Inl e' \<Rightarrow> (Inl e', fs') | Inr u \<Rightarrow> (Inr False, fs'))
      | (Inr b, fs') \<Rightarrow> (Inr b, fs'))"
  by (simp add: fallback_caught_def split: prod.splits sum.splits)

lemma fallback_caught_Inr:
  "fallback env obj_path usdz_path fs = (Inr b, fs') \<Longrightarrow>
     fallback_caught env obj_path usdz_path fs = (Inr b, fs')"
  by (simp add: fallback_caught_eq)

lemma fallback_caught_reported:
  "fallback env obj_path usdz_path fs = (Inl e, fs') \<Longrightarrow> report_error env = Inr () \<Longrightarrow>
     fallback_caught env obj_path usdz_path fs = (Inr False, fs')"
  by (simp add: fallback_caught_eq)

lemma fallback_caught_raises:
  "fallback env obj_path usdz_path fs = (Inl e, fs') \<Longrightarrow> report_error env = Inl e' \<Longrightarrow>
     fallback_caught env obj_path usdz_path fs = (Inl e', fs')"
  by (simp add: fallback_caught_eq)

lemma fallback_caught_Inl_iff:
  "fallback_caught env obj_path usdz_path fs = (Inl e', fs') \<longleftrightarrow>
     (\<exists>e. fallback env obj_path usdz_path fs = (Inl e, fs')) \<and> report_error env = Inl e'"
  by (cases "fallback env obj_path usdz_path fs")
    (auto simp: fallback_caught_eq split: sum.splits)

lemma fallback_caught_True_iff:
  "fallback_caught env obj_path usdz_path fs = (Inr True, fs') \<longleftrightarrow>
     fallback env obj_path usdz_path fs = (Inr True, fs')"
  by (cases "fallback env obj_path usdz_path fs")
    (auto simp: fallback_caught_eq split: sum.splits)

lemma fallback_caught_False_snd:
  "fallback_caught env obj_path usdz_path fs = (Inr False, fs') \<Longrightarrow>
     \<exists>r. fallback env obj_path usdz_path fs = (r, fs')"
  by (cases "fallback env obj_path usdz_path fs")
    (auto simp: fallback_caught_eq split: sum.splits)

lemma fallback_caught_returns:
  "report_error env = Inr () \<Longrightarrow>
     \<exists>b fs'. fallback_caught env obj_path usdz_path fs = (Inr b, fs')"
  by (cases "fallback env obj_path usdz_path fs")
    (auto simp: fallback_caught_eq split: sum.splits)

lemma convert_fallthrough:
  assumes "tool_attempt env obj_path usdz_path fs = (r, fs1)" and "r \<noteq> Inr True"
  shows "convert_to_usdz env obj_path usdz_path fs = fallback_caught env obj_path usdz_path fs1"
proof (cases r)
  case (Inl e)
  with assms show ?thesis by (simp add: convert_to_usdz_def)
next
  case (Inr b)
  with assms have "b = False" by simp
  with Inr assms show ?thesis by (simp add: convert_to_usdz_def)
qed

lemma convert_tool_success:
  assumes "tool_attempt env obj_path usdz_path fs = (Inr True, fs1)"
  shows "convert_to_usdz env obj_path usdz_path fs = (Inr True, fs1)"
  using assms by (simp add: convert_to_usdz_def)

lemma no_tool_attempt:
  "usdzconvert env = no_tool \<Longrightarrow>
     tool_attempt env obj_path usdz_path fs = (Inl FileNotFoundError, fs)"
  by (simp add: tool_attempt_def no_tool_def)

lemma fallback_open_raises:
  "open_readlines env obj_path fs = Inl e \<Longrightarrow>
     fallback env obj_path usdz_path fs = (Inl e, fs)"
  by (simp add: fallback_def)

lemma fallback_create_raises:
  assumes "open_readlines env obj_path fs = Inr ls" and "1 \<le> retained_count env 0 ls"
    and "fault env TempCreate = Some e"
  shows "fallback env obj_path usdz_path fs = (Inl e, fs)"
proof -
  obtain m where m: "parse_obj env ls = Inr m" using parse_obj_total by blast
  from parse_obj_faces_length [OF m] assms(2) have f: "faces m \<noteq> []" by auto
  from faces_need_vertices [OF m f] have v: "vertices m \<noteq> []" .
  from assms(1,3) m f v show ?thesis
    by (simp add: fallback_def write_temp_def)
qed

lemma no_files_run:
  assumes "usdzconvert env = no_tool" and "fault env OpenObj = None"
  shows "convert_to_usdz env obj_path usdz_path no_files =
     (case report_error env of Inl e' \<Rightarrow> Inl e' | Inr u \<Rightarrow> Inr False, no_files)"
proof -
  from assms(2) have "open_readlines env obj_path no_files = Inl FileNotFoundError"
    by (simp add: open_readlines_def no_files_def)
  then have "fallback env obj_path usdz_path no_files = (Inl FileNotFoundError, no_files)"
    by (rule fallback_open_raises)
  then show ?thesis
    by (simp add: convert_fallthrough [OF no_tool_attempt [OF assms(1)]] fallback_caught_eq
        split: sum.splits)
qed

section \<open>Properties of the reader of the document\<close>

lemma split_arr_skip: "split_arr sep (length ys) cur (ys @ rest) = split_arr sep 0 cur rest"
  by (induction ys arbitrary: cur) simp_all

lemma array_sep_eq: "array_sep = CHR '','' # LF # ''            ''"
  by (simp add: array_sep_def)

lemma not_startswith_sep:
  assumes "LF \<notin> set x" and "x \<noteq> []"
  shows "\<not> startswith (x @ array_sep @ rest) array_sep"
proof (cases x)
  case Nil
  with assms show ?thesis by simp
next
  case (Cons c x')
  show ?thesis
  proof (cases x')
    case Nil
    with Cons assms show ?thesis
      by (auto simp: startswith_def array_sep_eq LF_def)
  next
    case (Cons d x'')
    with \<open>x = c # x'\<close> assms show ?thesis
      by (auto simp: startswith_def array_sep_eq)
  qed
qed

lemma split_arr_elem:
  "LF \<notin> set x \<Longrightarrow>
     split_arr array_sep 0 cur (x @ array_sep @ rest) = (cur @ x) # split_arr array_sep 0 [] rest"
proof (induction x arbitrary: cur)
  case Nil
  have "split_arr array_sep (length (tl array_sep)) [] (tl array_sep @ rest) =
      split_arr array_sep 0 [] rest"
    by (rule split_arr_skip)
  then show ?case
    by (simp add: array_sep_eq startswith_def)
next
  case (Cons c x)
  from Cons.prems have "\<not> startswith ((c # x) @ array_sep @ rest) array_sep"
    by (intro not_startswith_sep) simp_all
  with Cons show ?case by simp
qed

lemma split_arr_last: "LF \<notin> set x \<Longrightarrow> split_arr array_sep 0 cur x = [cur @ x]"
proof (induction x arbitrary: cur)
  case Nil
  then show ?case by simp
next
  case (Cons c x)
  from Cons.prems have "\<not> startswith (c # x) array_sep"
    by (cases x) (auto simp: startswith_def array_sep_eq)
  with Cons show ?case by simp
qed

lemma split_arr_join:
  "xs \<noteq> [] \<Longrightarrow> \<forall>x\<in>set xs. LF \<notin> set x \<Longrightarrow> split_arr array_sep 0 [] (join array_sep xs) = xs"
proof (induction array_sep xs rule: join.induct)
  case 1
  then show ?case by simp
next
  case (2 x)
  then show ?case by (simp add: split_arr_last)
next
  case (3 x y ys)
  then show ?case by (simp add: split_arr_elem)
qed

lemma usd_content_shape:
  "usd_content m =
     doc_head @ join array_sep (face_vertex_counts m) @
     doc_mid1 @ join array_sep (face_vertex_indices m) @
     doc_mid2 @ join array_sep (vertices m) @ doc_tail"
  by (simp add: usd_content_def doc_head_def doc_mid1_def doc_mid2_def doc_tail_def unlines_def)

lemma after_skip:
  assumes "mk \<noteq> []" and "hd mk \<notin> set a"
  shows "after mk (a @ s) = after mk s"
  using assms(2)
proof (induction a)
  case Nil
  then show ?case by simp
next
  case (Cons c a)
  from assms(1) Cons.prems have "\<not> startswith (c # a @ s) mk"
    by (cases mk) (auto simp: startswith_def)
  with Cons show ?case by simp
qed

lemma after_counts: "after ''faceVertexCounts = ['' (doc_head @ s) = Some s"
  by (simp add: doc_head_def unlines_def startswith_def LF_def DQ_def)

lemma after_indices_head:
  "after ''faceVertexIndices = ['' (doc_head @ s) = after ''faceVertexIndices = ['' s"
  by (simp add: doc_head_def unlines_def startswith_def LF_def DQ_def)

lemma after_indices_mid: "after ''faceVertexIndices = ['' (doc_mid1 @ s) = Some s"
  by (simp add: doc_mid1_def startswith_def LF_def)

lemma after_points_head: "after ''points = ['' (doc_head @ s) = after ''points = ['' s"
  by (simp add: doc_head_def unlines_def startswith_def LF_def DQ_def)

lemma after_points_mid1: "after ''points = ['' (doc_mid1 @ s) = after ''points = ['' s"
  by (simp add: doc_mid1_def startswith_def LF_def)

lemma after_points_mid2: "after ''points = ['' (doc_mid2 @ s) = Some s"
  by (simp add: doc_mid2_def startswith_def LF_def)

lemma set_join: "set (join sep xs) \<subseteq> set sep \<union> (\<Union>x\<in>set xs. set x)"
  by (induction sep xs rule: join.induct) auto

lemma join_chars: "c \<in> set (join sep xs) \<Longrightarrow> c \<in> set sep \<or> (\<exists>x\<in>set xs. c \<in> set x)"
  using set_join [of sep xs] by auto

lemma join_nonempty: "xs \<noteq> [] \<Longrightarrow> hd xs \<noteq> [] \<Longrightarrow> join sep xs \<noteq> []"
  by (induction sep xs rule: join.induct) auto

lemma isdigit_char_of: "n < 10 \<Longrightarrow> isdigit (char_of (48 + (n::nat)))"
  by (simp add: isdigit_def)

lemma str_nat_digits: "\<forall>c\<in>set (str_nat n). isdigit c"
proof (induction n rule: str_nat.induct)
  case (1 n)
  show ?case
  proof (cases "n < 10")
    case True
    then show ?thesis by (simp add: str_nat.simps [of n] isdigit_char_of)
  next
    case False
    with 1 have "\<forall>c\<in>set (str_nat (n div 10)). isdigit c" by simp
    moreover have "isdigit (char_of (48 + n mod 10))" by (simp add: isdigit_char_of)
    ultimately show ?thesis using False by (simp add: str_nat.simps [of n])
  qed
qed

lemma str_nat_nonempty: "str_nat n \<noteq> []"
  by (simp add: str_nat.simps [of n])

lemma str_int_chars: "\<forall>c\<in>set (str_int i). isdigit c \<or> c = CHR ''-''"
  using str_nat_digits by (auto simp: str_int_def)

lemma str_int_nonempty: "str_int i \<noteq> []"
  by (simp add: str_int_def str_nat_nonempty)

lemma isdigit_not:
  "isdigit c \<Longrightarrow> c \<noteq> LF \<and> c \<noteq> CHR '']'' \<and> c \<noteq> CHR ''f'' \<and> c \<noteq> CHR ''p''"
  by (auto simp: isdigit_def LF_def)

lemma body_take:
  assumes "readable xs"
  shows "takeWhile (\<lambda>c. c \<noteq> CHR '']'') (join array_sep xs @ CHR '']'' # rest) = join array_sep xs"
proof -
  have "CHR '']'' \<notin> set (join array_sep xs)"
    using assms by (auto dest!: join_chars simp: readable_def array_sep_eq LF_def)
  then show ?thesis
    by (subst takeWhile_append2) auto
qed

lemma body_split:
  assumes "readable xs"
  shows "(if join array_sep xs = [] then [] else split_arr array_sep 0 [] (join array_sep xs)) = xs"
proof (cases xs)
  case Nil
  then show ?thesis by simp
next
  case (Cons x xs')
  with assms have "join array_sep xs \<noteq> []"
    by (intro join_nonempty) (simp_all add: readable_def)
  moreover from Cons assms have "split_arr array_sep 0 [] (join array_sep xs) = xs"
    by (intro split_arr_join) (simp_all add: readable_def)
  ultimately show ?thesis by simp
qed

lemma read_array_at:
  assumes "after (name @ '' = ['') doc = Some (join array_sep xs @ CHR '']'' # rest)"
    and "readable xs"
  shows "read_array name doc = Some xs"
  unfolding read_array_def Let_def assms(1) option.case body_take [OF assms(2)]
    body_split [OF assms(2)] ..

lemma readable_counts: "readable (face_vertex_counts m)"
  by (simp add: readable_def face_vertex_counts_def LF_def)

lemma readable_indices: "readable (face_vertex_indices m)"
  using str_int_chars isdigit_not
  by (fastforce simp: readable_def face_vertex_indices_def str_int_nonempty LF_def)

lemma no_f_counts: "CHR ''f'' \<notin> set (join array_sep (face_vertex_counts m))"
  by (auto dest!: join_chars simp: face_vertex_counts_def array_sep_eq LF_def)

lemma no_p_counts: "CHR ''p'' \<notin> set (join array_sep (face_vertex_counts m))"
  by (auto dest!: join_chars simp: face_vertex_counts_def array_sep_eq LF_def)

lemma no_p_indices: "CHR ''p'' \<notin> set (join array_sep (face_vertex_indices m))"
proof
  assume "CHR ''p'' \<in> set (join array_sep (face_vertex_indices m))"
  with set_join [of array_sep "face_vertex_indices m"]
  have "CHR ''p'' \<in> set array_sep \<or> (\<exists>i. CHR ''p'' \<in> set (str_int i))"
    by (auto simp: face_vertex_indices_def)
  then show False
    using str_int_chars isdigit_not by (auto simp: array_sep_eq LF_def)
qed

lemma read_counts:
  "read_array ''faceVertexCounts'' (usd_content m) = Some (face_vertex_counts m)"
proof (rule read_array_at [OF _ readable_counts])
  show "after (''faceVertexCounts'' @ '' = ['') (usd_content m) =
      Some (join array_sep (face_vertex_counts m) @ CHR '']'' #
        (LF # ''        int[] faceVertexIndices = ['') @
        join array_sep (face_vertex_indices m) @ doc_mid2 @ join array_sep (vertices m) @ doc_tail)"
    using after_counts [of "join array_sep (face_vertex_counts m) @ doc_mid1 @
        join array_sep (face_vertex_indices m) @ doc_mid2 @ join array_sep (vertices m) @ doc_tail"]
    by (simp add: usd_content_shape doc_mid1_def)
qed

lemma read_indices:
  "read_array ''faceVertexIndices'' (usd_content m) = Some (face_vertex_indices m)"
proof (rule read_array_at [OF _ readable_indices])
  let ?rest = "join array_sep (face_vertex_indices m) @ doc_mid2 @ join array_sep (vertices m) @ doc_tail"
  have "after ''faceVertexIndices = ['' (usd_content m) =
      after ''faceVertexIndices = ['' (join array_sep (face_vertex_counts m) @ doc_mid1 @ ?rest)"
    by (simp only: usd_content_shape after_indices_head)
  also have "\<dots> = after ''faceVertexIndices = ['' (doc_mid1 @ ?rest)"
    by (rule after_skip) (simp_all add: no_f_counts)
  also have "\<dots> = Some ?rest"
    by (rule after_indices_mid)
  finally show "after (''faceVertexIndices'' @ '' = ['') (usd_content m) =
      Some (join array_sep (face_vertex_indices m) @ CHR '']'' #
        (LF # ''        point3f[] points = ['') @ join array_sep (vertices m) @ doc_tail)"
    by (simp add: doc_mid2_def)
qed

lemma read_points:
  assumes "readable (vertices m)"
  shows "read_array ''points'' (usd_content m) = Some (vertices m)"
proof (rule read_array_at [OF _ assms])
  let ?r3 = "join array_sep (vertices m) @ doc_tail"
  let ?r2 = "join array_sep (face_vertex_indices m) @ doc_mid2 @ ?r3"
  have "after ''points = ['' (usd_content m) =
      after ''points = ['' (join array_sep (face_vertex_counts m) @ doc_mid1 @ ?r2)"
    by (simp only: usd_content_shape after_points_head)
  also have "\<dots> = after ''points = ['' (doc_mid1 @ ?r2)"
    by (rule after_skip) (simp_all add: no_p_counts)
  also have "\<dots> = after ''points = ['' ?r2"
    by (rule after_points_mid1)
  also have "\<dots> = after ''points = ['' (doc_mid2 @ ?r3)"
    by (rule after_skip) (simp_all add: no_p_indices)
  also have "\<dots> = Some ?r3"
    by (rule after_points_mid2)
  finally show "after (''points'' @ '' = ['') (usd_content m) =
      Some (join array_sep (vertices m) @ CHR '']'' # tl doc_tail)"
    by (simp add: doc_tail_def)
qed

lemma readable_vertices:
  assumes "repr_ok env" and "parse_obj env ls = Inr m"
  shows "readable (vertices m)"
  unfolding readable_def
proof
  fix v assume "v \<in> set (vertices m)"
  with parse_obj_vertices_form [OF assms(2)] obtain x y z where
    "v = ''('' @ float_repr env x @ '', '' @ float_repr env y @ '', '' @ float_repr env z @ '')''"
    by blast
  with assms(1) show "v \<noteq> [] \<and> LF \<notin> set v \<and> CHR '']'' \<notin> set v"
    by (auto simp: repr_ok_def LF_def)
qed

section \<open>Evaluation on the concrete inputs\<close>

lemmas str_eval = strip_def split_ws_def isspace_def int_space_def startswith_def isdigit_def
  digit_val_def count_digits_def py_int_def split_sep_def v_idx_def

lemma py_int_1: "py_int d ''1'' = Inr 1"
  by (auto simp: str_eval)

lemma py_int_2: "py_int d ''2'' = Inr 2"
  by (auto simp: str_eval)

lemma py_int_3: "py_int d ''3'' = Inr 3"
  by (auto simp: str_eval)

lemma not_resolves_99: "\<not> resolves d 3 ''99''"
  by (auto simp: resolves_def str_eval split: sum.splits if_splits)

lemma triangle_parse:
  assumes "float_parse env ''0'' = Some z" and "float_parse env ''1'' = Some u"
  shows "parse_obj env triangle_lines =
     Inr \<lparr>vertices =
            [''('' @ float_repr env z @ '', '' @ float_repr env z @ '', '' @ float_repr env z @ '')'',
             ''('' @ float_repr env u @ '', '' @ float_repr env z @ '', '' @ float_repr env z @ '')'',
             ''('' @ float_repr env z @ '', '' @ float_repr env u @ '', '' @ float_repr env z @ '')''],
          faces = [0, 1, 2]\<rparr>"
  using assms
  by (simp add: parse_obj_def triangle_lines_def parse_line_def Let_def vertex_text_def py_float_def
      strip_def split_ws_def isspace_def startswith_def split_sep_def v_idx_def
      py_int_1 py_int_2 py_int_3)

lemma vertex_lines3_count:
  assumes "float_parse env ''0'' = Some z" and "float_parse env ''1'' = Some u"
  shows "list_all (is_vertex_line env) vertex_lines3"
  using assms
  by (simp add: vertex_lines3_def is_vertex_line_def vertex_fields_def strip_def split_ws_def
      isspace_def startswith_def)

lemma not_retained_1_2_99: "\<not> retained_face d 3 ''f 1 2 99''"
proof -
  have "face_fields ''f 1 2 99'' = [''1'', ''2'', ''99'']"
    by (simp add: face_fields_def strip_def split_ws_def isspace_def)
  then show ?thesis
    using not_resolves_99 [of d] by (simp add: retained_face_def)
qed


lemma readlines_triangle: "readlines (unlines triangle_lines) = terminated triangle_lines"
  by (simp add: readlines_def unlines_def triangle_lines_def terminated_def LF_def CR_def)


lemma open_one_file:
  "fault env OpenObj = None \<Longrightarrow> open_readlines env p (one_file p s) = Inr (readlines s)"
  by (simp add: open_readlines_def one_file_def text_file_def)

lemma digits_float_0_1: "digits_float ''0'' = Some 0" "digits_float ''1'' = Some 1"
  by (simp_all add: digits_float_def isdigit_def digit_val_def)

lemma str_nat_0_1: "str_nat 0 = ''0''" "str_nat 1 = ''1''" "str_nat (Suc 0) = ''1''"
  "str_nat 2 = ''2''"
  by code_simp+

lemma triangle_mesh_parse:
  assumes "float_parse env = digits_float" and "float_repr env = (\<lambda>n. str_nat n @ ''.0'')"
  shows "parse_obj env (terminated triangle_lines) = Inr triangle_mesh"
  using triangle_parse [of env 0 1] assms
  by (simp add: parse_obj_terminated digits_float_0_1 str_nat_0_1 triangle_mesh_def)

lemma triangle_fs_open:
  "fault env OpenObj = None \<Longrightarrow>
     open_readlines env ''m.obj'' triangle_fs = Inr (terminated triangle_lines)"
  by (simp add: triangle_fs_def open_one_file readlines_triangle)

lemma triangle_doc_length: "length (usd_content triangle_mesh) = 410"
  by (simp add: usd_content_def triangle_mesh_def unlines_def face_vertex_counts_def
      face_vertex_indices_def array_sep_def str_int_def str_nat_0_1)

lemma env_fault_simps:
  "float_parse (env_fault s e) = digits_float"
  "float_repr (env_fault s e) = (\<lambda>n. str_nat n @ ''.0'')"
  "tmp_name (env_fault s e) = ''/tmp/tmp0a1b2c3d.usd''"
  "usdzconvert (env_fault s e) = no_tool"
  "fault (env_fault s e) t = (if t = s then Some e else None)"
  "zip_size (env_fault s e) = (\<lambda>data. length data + 128)"
  "partial_size (env_fault s e) = 0"
  by (simp_all add: env_fault_def env0_def)

lemma env_fault_report:
  "s \<noteq> PrintError \<Longrightarrow> s \<noteq> PrintTraceback \<Longrightarrow> report_error (env_fault s e) = Inr ()"
  by (simp add: report_error_def env_fault_simps)

lemma env_closed_stderr_simps:
  "usdzconvert env_closed_stderr = no_tool"
  "fault env_closed_stderr OpenObj = None"
  "fault env_closed_stderr PrintError = Some ValueError"
  "report_error env_closed_stderr = Inl ValueError"
  by (simp_all add: env_closed_stderr_def env0_def report_error_def)

lemma triangle_fs_simps:
  "triangle_fs ''m.obj'' = Some (text_file (unlines triangle_lines))"
  "p \<noteq> ''m.obj'' \<Longrightarrow> triangle_fs p = None"
  by (simp_all add: triangle_fs_def one_file_def)

lemma triangle_run:
  assumes "float_parse env = digits_float" and "float_repr env = (\<lambda>n. str_nat n @ ''.0'')"
    and "no_fault env" and "tmp_name env \<noteq> ''m.obj''" and "tmp_name env \<noteq> usdz_path"
  shows "fallback env ''m.obj'' usdz_path triangle_fs =
     (Inr (1000 < zip_size env (usd_content triangle_mesh)),
      triangle_fs(usdz_path \<mapsto> model_archive env (usd_content triangle_mesh)))"
proof -
  from assms(3) have "fault env OpenObj = None" by (simp add: no_fault_def)
  then have o: "open_readlines env ''m.obj'' triangle_fs = Inr (terminated triangle_lines)"
    by (rule triangle_fs_open)
  have p: "parse_obj env (terminated triangle_lines) = Inr triangle_mesh"
    using assms(1,2) by (rule triangle_mesh_parse)
  have g: "vertices triangle_mesh \<noteq> []" "faces triangle_mesh \<noteq> []"
    by (simp_all add: triangle_mesh_def)
  from assms(4) have f: "triangle_fs (tmp_name env) = None"
    by (simp add: triangle_fs_simps)
  from fallback_geometry [OF o p g assms(3) f assms(5)] show ?thesis .
qed

lemma env0_simps:
  "float_parse env0 = digits_float"
  "float_repr env0 = (\<lambda>n. str_nat n @ ''.0'')"
  "tmp_name env0 = ''/tmp/tmp0a1b2c3d.usd''"
  "usdzconvert env0 = no_tool"
  "fault env0 t = None"
  "zip_size env0 = (\<lambda>data. length data + 128)"
  "int_max_str_digits env0 = 4300"
  "partial_size env0 = 0"
  "no_fault env0"
  "report_error env0 = Inr ()"
  by (simp_all add: env0_def no_fault_def report_error_def)

lemma env_large_simps:
  "float_parse env_large = digits_float"
  "float_repr env_large = (\<lambda>n. str_nat n @ ''.0'')"
  "tmp_name env_large = ''/tmp/tmp0a1b2c3d.usd''"
  "usdzconvert env_large = no_tool"
  "fault env_large t = None"
  "zip_size env_large = (\<lambda>data. 2048)"
  "no_fault env_large"
  "report_error env_large = Inr ()"
  by (simp_all add: env_large_def env0_def no_fault_def report_error_def)

lemma env_tool_simps:
  "usdzconvert env_tool = good_tool"
  by (simp_all add: env_tool_def env0_def)

lemma triangle_run_env0:
  "convert_to_usdz env0 ''m.obj'' ''m.usdz'' triangle_fs =
     (Inr False, triangle_fs(''m.usdz'' \<mapsto> model_archive env0 (usd_content triangle_mesh)))"
  by (simp add: convert_fallthrough [OF no_tool_attempt] fallback_caught_eq triangle_run
      env0_simps triangle_doc_length)

lemma triangle_run_env_large:
  "convert_to_usdz env_large ''m.obj'' ''m.usdz'' triangle_fs =
     (Inr True, triangle_fs(''m.usdz'' \<mapsto> model_archive env_large (usd_content triangle_mesh)))"
  by (simp add: convert_fallthrough [OF no_tool_attempt] fallback_caught_eq triangle_run
      env_large_simps)

lemma triangle_run_env_tool:
  "convert_to_usdz env_tool ''m.obj'' ''m.usdz'' triangle_fs =
     (Inr True, triangle_fs(''m.usdz'' \<mapsto>
        \<lparr>content = Archive [(''model.usdc'', ''PXR-USDC'')], fsize = 4096\<rparr>))"
  by (simp add: convert_to_usdz_def tool_attempt_def env_tool_simps good_tool_def size_guard_eq)

lemma zip_fault_run:
  assumes "s = ZipOpen \<or> s = ZipWrite" and "usdz_path \<noteq> ''/tmp/tmp0a1b2c3d.usd''"
  shows "convert_to_usdz (env_fault s e) ''m.obj'' usdz_path triangle_fs =
     (Inr False,
      if s = ZipOpen
      then triangle_fs(tmp_name env0 \<mapsto> text_file (usd_content triangle_mesh))
      else triangle_fs(tmp_name env0 \<mapsto> text_file (usd_content triangle_mesh),
             usdz_path \<mapsto> \<lparr>content = Partial, fsize = 0\<rparr>))"
proof -
  let ?env = "env_fault s e"
  let ?t = "tmp_name env0"
  let ?fs1 = "triangle_fs(?t \<mapsto> text_file (usd_content triangle_mesh))"
  let ?fs2 = "if s = ZipOpen then ?fs1 else ?fs1(usdz_path \<mapsto> \<lparr>content = Partial, fsize = 0\<rparr>)"
  from assms(1) have o: "open_readlines ?env ''m.obj'' triangle_fs = Inr (terminated triangle_lines)"
    by (auto simp: triangle_fs_open env_fault_simps)
  have p: "parse_obj ?env (terminated triangle_lines) = Inr triangle_mesh"
    by (simp add: triangle_mesh_parse env_fault_simps)
  have g: "vertices triangle_mesh \<noteq> []" "faces triangle_mesh \<noteq> []"
    by (simp_all add: triangle_mesh_def)
  from assms(1) have wt: "write_temp ?env (usd_content triangle_mesh) triangle_fs = (Inr ?t, ?fs1)"
    by (auto simp: write_temp_def env_fault_simps env0_simps triangle_fs_simps text_file_def)
  from assms(1) have wz: "write_zip ?env usdz_path ?t ''model.usd'' ?fs1 = (Inl e, ?fs2)"
    by (auto simp: write_zip_def env_fault_simps Let_def)
  from o p g wt wz
  have "fallback ?env ''m.obj'' usdz_path triangle_fs = (Inl e, ?fs2)"
    by (simp add: fallback_def)
  moreover from assms(1) have "report_error ?env = Inr ()"
    by (auto simp: env_fault_report)
  ultimately show ?thesis
    by (simp add: convert_fallthrough [OF no_tool_attempt] env_fault_simps fallback_caught_eq)
qed

lemma str_nat_repr_ok:
  "\<forall>n. LF \<notin> set (str_nat n @ ''.0'') \<and> CHR '']'' \<notin> set (str_nat n @ ''.0'')"
  using str_nat_digits isdigit_not by (fastforce simp: LF_def)

lemma repr_ok_env0: "repr_ok env0" "repr_ok env_large"
  using str_nat_repr_ok by (simp_all add: repr_ok_def env0_simps env_large_simps)

lemma digits_float_x: "digits_float ''x'' = None"
  by (simp add: digits_float_def isdigit_def)

lemma mixed_parse:
  assumes "float_parse env = digits_float" and "float_repr env = (\<lambda>n. str_nat n @ ''.0'')"
  shows "parse_obj env (terminated mixed_lines) = Inr triangle_mesh"
proof -
  have t: "parse_obj env triangle_lines = Inr triangle_mesh"
    using triangle_mesh_parse [OF assms] by (simp add: parse_obj_terminated)
  have a: "parse_line env triangle_mesh ''f 1 2 99'' = Inr triangle_mesh"
    using not_retained_1_2_99 [of "int_max_str_digits env", unfolded numeral_3_eq_3]
    by (simp add: parse_line_eq triangle_mesh_def is_vertex_line_def strip_def isspace_def
        startswith_def)
  have b: "parse_line env triangle_mesh ''v 1 x 0'' = Inr triangle_mesh"
    using assms
    by (simp add: parse_line_eq is_vertex_line_def retained_face_def is_face_line_def
        vertex_fields_def strip_def split_ws_def isspace_def startswith_def digits_float_x)
  have c: "parse_line env triangle_mesh ''# end'' = Inr triangle_mesh"
    by (simp add: parse_line_def strip_def isspace_def startswith_def)
  from t a b c have "parse_obj env mixed_lines = Inr triangle_mesh"
    by (simp add: mixed_lines_def parse_obj_def parse_lines_append)
  then show ?thesis
    by (simp only: parse_obj_terminated)
qed

lemma mixed_counts:
  assumes "float_parse env = digits_float"
  shows "vertex_count env (terminated mixed_lines) = 3 \<and>
     retained_count env 0 (terminated mixed_lines) = 1"
proof -
  have v: "is_vertex_line env ''v 0 0 0''" "is_vertex_line env ''v 1 0 0''"
    "is_vertex_line env ''v 0 1 0''" "\<not> is_vertex_line env ''f 1 2 3''"
    "\<not> is_vertex_line env ''f 1 2 99''" "\<not> is_vertex_line env ''v 1 x 0''"
    "\<not> is_vertex_line env ''# end''"
    using assms
    by (simp_all add: is_vertex_line_def vertex_fields_def strip_def split_ws_def isspace_def
        startswith_def digits_float_0_1 digits_float_x)
  have f: "retained_face (int_max_str_digits env) 3 ''f 1 2 3''"
    "\<not> retained_face (int_max_str_digits env) 3 ''f 1 2 99''"
    "\<not> retained_face (int_max_str_digits env) 3 ''v 1 x 0''"
    "\<not> retained_face (int_max_str_digits env) 3 ''# end''"
    using not_retained_1_2_99 [of "int_max_str_digits env"]
    by (simp_all add: retained_face_def is_face_line_def face_fields_def strip_def split_ws_def
        isspace_def startswith_def resolves_def split_sep_def v_idx_def py_int_1 py_int_2 py_int_3)
  from v f have "vertex_count env mixed_lines = 3 \<and> retained_count env 0 mixed_lines = 1"
    by (simp add: mixed_lines_def triangle_lines_def vertex_count_def numeral_3_eq_3)
  then show ?thesis
    by (simp only: vertex_count_terminated retained_count_terminated)
qed

lemma readlines_mixed: "readlines (unlines mixed_lines) = terminated mixed_lines"
  by (simp add: readlines_def unlines_def mixed_lines_def triangle_lines_def terminated_def
      LF_def CR_def)

lemma mixed_run:
  assumes "float_parse env = digits_float" and "float_repr env = (\<lambda>n. str_nat n @ ''.0'')"
    and "no_fault env" and "tmp_name env \<noteq> ''m.obj''" and "tmp_name env \<noteq> usdz_path"
  shows "fallback env ''m.obj'' usdz_path mixed_fs =
     (Inr (1000 < zip_size env (usd_content triangle_mesh)),
      mixed_fs(usdz_path \<mapsto> model_archive env (usd_content triangle_mesh)))"
proof -
  from assms(3) have "fault env OpenObj = None" by (simp add: no_fault_def)
  then have o: "open_readlines env ''m.obj'' mixed_fs = Inr (terminated mixed_lines)"
    by (simp add: mixed_fs_def open_one_file readlines_mixed)
  have p: "parse_obj env (terminated mixed_lines) = Inr triangle_mesh"
    using assms(1,2) by (rule mixed_parse)
  have g: "vertices triangle_mesh \<noteq> []" "faces triangle_mesh \<noteq> []"
    by (simp_all add: triangle_mesh_def)
  from assms(4) have f: "mixed_fs (tmp_name env) = None"
    by (simp add: mixed_fs_def one_file_def)
  from fallback_geometry [OF o p g assms(3) f assms(5)] show ?thesis .
qed

lemma v_idx_digit:
  "v_idx d ''0'' = Inr (- 1)" "v_idx d ''1'' = Inr 0" "v_idx d ''2'' = Inr 1"
  "v_idx d ''3'' = Inr 2" "v_idx d ''4'' = Inr 3"
  by (auto simp: str_eval)

lemma v_idx_slash:
  "v_idx d ''3/1/1'' = Inr 2" "v_idx d ''1/2/2'' = Inr 0" "v_idx d ''2/3/3'' = Inr 1"
  "v_idx d ''2/7/9'' = Inr 1"
  by (auto simp: str_eval)


lemma face_fields_eval:
  "face_fields ''f 1 2 3'' = [''1'', ''2'', ''3'']"
  "face_fields ''f 1 2 4'' = [''1'', ''2'', ''4'']"
  "face_fields ''f 0 1 2'' = [''0'', ''1'', ''2'']"
  "face_fields ''f 1 2 3 4'' = [''1'', ''2'', ''3'', ''4'']"
  "face_fields ''f 1 2 3 99'' = [''1'', ''2'', ''3'', ''99'']"
  "face_fields ''f 3/1/1 1/2/2 2/3/3'' = [''3/1/1'', ''1/2/2'', ''2/3/3'']"
  by (simp_all add: face_fields_def strip_def split_ws_def isspace_def)

lemma is_face_line_eval:
  "is_face_line ''f 1 2 3''" "is_face_line ''f 1 2 4''" "is_face_line ''f 0 1 2''"
  "is_face_line ''f 1 2 3 4''" "is_face_line ''f 1 2 3 99''"
  "is_face_line ''f 3/1/1 1/2/2 2/3/3''"
  by (simp_all add: is_face_line_def strip_def isspace_def startswith_def)

lemma resolves_eval:
  "resolves d 3 ''1''" "resolves d 3 ''2''" "resolves d 3 ''3''" "\<not> resolves d 3 ''4''"
  "\<not> resolves d n ''0''"
  "resolves d 3 ''3/1/1''" "resolves d 3 ''1/2/2''" "resolves d 3 ''2/3/3''"
  by (simp_all add: resolves_def v_idx_digit v_idx_slash)

lemma idx_of_eval:
  "idx_of d ''1'' = 0" "idx_of d ''2'' = 1" "idx_of d ''3'' = 2"
  "idx_of d ''3/1/1'' = 2" "idx_of d ''1/2/2'' = 0" "idx_of d ''2/3/3'' = 1"
  by (simp_all add: idx_of_def v_idx_digit v_idx_slash)

lemma three_vertices_simps:
  "length (vertices three_vertices) = 3" "faces three_vertices = []"
  by (simp_all add: three_vertices_def)

lemma vertex_lines3_parse:
  assumes "float_parse env = digits_float" and "float_repr env = (\<lambda>n. str_nat n @ ''.0'')"
  shows "parse_obj env vertex_lines3 = Inr three_vertices"
  using assms
  by (simp add: parse_obj_def vertex_lines3_def three_vertices_def parse_line_def Let_def
      vertex_text_def py_float_def strip_def split_ws_def isspace_def startswith_def
      digits_float_0_1 str_nat_0_1)

lemma vertex_lines3_vertex_count:
  "float_parse env = digits_float \<Longrightarrow> vertex_count env vertex_lines3 = 3"
  using vertex_lines3_count [of env 0 1]
  by (simp add: digits_float_0_1 vertex_count_def vertex_lines3_def)

lemma extra_vertex_line:
  "float_parse env = digits_float \<Longrightarrow> is_vertex_line env ''v 1 1 0''"
  by (simp add: is_vertex_line_def vertex_fields_def strip_def split_ws_def isspace_def
      startswith_def digits_float_0_1)

lemma vertex_count_append:
  "vertex_count env (xs @ ys) = vertex_count env xs + vertex_count env ys"
  by (simp add: vertex_count_def)

lemma extra_vertex_of:
  assumes "float_parse env = digits_float" and "float_repr env = (\<lambda>n. str_nat n @ ''.0'')"
  shows "vertex_of env ''v 1 1 0'' = ''(1.0, 1.0, 0.0)''"
  using assms
  by (simp add: vertex_of_def vertex_fields_def vertex_text_def py_float_def strip_def
      split_ws_def isspace_def digits_float_0_1 str_nat_0_1)

lemma quad_line_retained: "retained_face d 3 ''f 1 2 3 4''" "retained_face d 3 ''f 1 2 3 99''"
  by (simp_all add: retained_face_def is_face_line_eval face_fields_eval resolves_eval)

lemma quad_face_of: "face_of d ''f 1 2 3 4'' = [0, 1, 2]" "face_of d ''f 1 2 3 99'' = [0, 1, 2]"
  by (simp_all add: face_of_def face_fields_eval idx_of_eval)

lemma quad_parse:
  assumes "float_parse env = digits_float" and "float_repr env = (\<lambda>n. str_nat n @ ''.0'')"
  shows "parse_obj env (vertex_lines3 @ [''f 1 2 3 4'', ''v 1 1 0'']) =
     Inr \<lparr>vertices = [''(0.0, 0.0, 0.0)'', ''(1.0, 0.0, 0.0)'', ''(0.0, 1.0, 0.0)'',
                       ''(1.0, 1.0, 0.0)''],
          faces = [0, 1, 2]\<rparr>"
    and "parse_obj env (vertex_lines3 @ [''v 1 1 0'']) =
     Inr \<lparr>vertices = [''(0.0, 0.0, 0.0)'', ''(1.0, 0.0, 0.0)'', ''(0.0, 1.0, 0.0)'',
                       ''(1.0, 1.0, 0.0)''],
          faces = []\<rparr>"
    and "parse_obj env (vertex_lines3 @ [''f 1 2 3 99'']) = Inr triangle_mesh"
proof -
  have p: "parse_lines env \<lparr>vertices = [], faces = []\<rparr> vertex_lines3 = Inr three_vertices"
    using vertex_lines3_parse [OF assms] by (simp add: parse_obj_def)
  have q: "\<not> is_vertex_line env ''f 1 2 3 4''" "\<not> is_vertex_line env ''f 1 2 3 99''"
    by (simp_all add: face_not_vertex is_face_line_eval)
  note r = quad_line_retained [of "int_max_str_digits env"]
  note v = extra_vertex_line [OF assms(1)] extra_vertex_of [OF assms]
  show "parse_obj env (vertex_lines3 @ [''f 1 2 3 4'', ''v 1 1 0'']) =
     Inr \<lparr>vertices = [''(0.0, 0.0, 0.0)'', ''(1.0, 0.0, 0.0)'', ''(0.0, 1.0, 0.0)'',
                       ''(1.0, 1.0, 0.0)''],
          faces = [0, 1, 2]\<rparr>"
    using p q r v
    by (simp add: parse_obj_def parse_lines_append parse_line_eq three_vertices_simps quad_face_of)
       (simp add: three_vertices_def)
  show "parse_obj env (vertex_lines3 @ [''v 1 1 0'']) =
     Inr \<lparr>vertices = [''(0.0, 0.0, 0.0)'', ''(1.0, 0.0, 0.0)'', ''(0.0, 1.0, 0.0)'',
                       ''(1.0, 1.0, 0.0)''],
          faces = []\<rparr>"
    using p v
    by (simp add: parse_obj_def parse_lines_append parse_line_eq) (simp add: three_vertices_def)
  show "parse_obj env (vertex_lines3 @ [''f 1 2 3 99'']) = Inr triangle_mesh"
    using p q r
    by (simp add: parse_obj_def parse_lines_append parse_line_eq three_vertices_simps quad_face_of)
       (simp add: three_vertices_def triangle_mesh_def)
qed




lemma triangle_retained_count:
  "float_parse env = digits_float \<Longrightarrow> retained_count env 0 (terminated triangle_lines) = 1"
  using vertex_lines3_count [of env 0 1] face_not_vertex [OF is_face_line_eval(1), of env]
  by (simp add: retained_count_terminated)
     (simp add: triangle_lines_def vertex_lines3_def digits_float_0_1 retained_face_def
        is_face_line_eval face_fields_eval resolves_eval numeral_3_eq_3 [symmetric])

lemma str_int_0_1_2: "str_int 0 = ''0''" "str_int 1 = ''1''" "str_int 2 = ''2''"
  by (simp_all add: str_int_def str_nat_0_1)

lemma triangle_arrays:
  assumes "parse_obj env ls = Inr t" and "faces t = [0, 1, 2]" and "repr_ok env"
  shows "read_array ''faceVertexIndices'' (usd_content t) = Some [''0'', ''1'', ''2'']"
    and "read_array ''faceVertexCounts'' (usd_content t) = Some [''3'']"
    and "read_array ''points'' (usd_content t) = Some (vertices t)"
proof -
  have i: "face_vertex_indices t = [''0'', ''1'', ''2'']"
    using assms(2) by (simp add: face_vertex_indices_def str_int_0_1_2)
  have c: "face_vertex_counts t = [''3'']"
    using assms(2) by (simp add: face_vertex_counts_def)
  show "read_array ''faceVertexIndices'' (usd_content t) = Some [''0'', ''1'', ''2'']"
    by (simp only: read_indices i)
  show "read_array ''faceVertexCounts'' (usd_content t) = Some [''3'']"
    by (simp only: read_counts c)
  show "read_array ''points'' (usd_content t) = Some (vertices t)"
    using readable_vertices [OF assms(3,1)] by (rule read_points)
qed

lemma aux_line_eval:
  "is_face_line ''f 3 1 2 2/7/9''" "is_face_line ''f 1 2 3 4/7/9''"
  "face_fields ''f 3 1 2 2/7/9'' = [''3'', ''1'', ''2'', ''2/7/9'']"
  "face_fields ''f 1 2 3 4/7/9'' = [''1'', ''2'', ''3'', ''4/7/9'']"
  by (simp_all add: is_face_line_def face_fields_def strip_def split_ws_def isspace_def
      startswith_def)

lemma lead_eval:
  "takeWhile (\<lambda>c. c \<noteq> CHR ''/'') ''3/1/1'' = ''3''"
  "takeWhile (\<lambda>c. c \<noteq> CHR ''/'') ''1/2/2'' = ''1''"
  "takeWhile (\<lambda>c. c \<noteq> CHR ''/'') ''2/3/3'' = ''2''"
  "takeWhile (\<lambda>c. c \<noteq> CHR ''/'') ''2/7/9'' = ''2''"
  "takeWhile (\<lambda>c. c \<noteq> CHR ''/'') ''1'' = ''1''"
  "takeWhile (\<lambda>c. c \<noteq> CHR ''/'') ''2'' = ''2''"
  "takeWhile (\<lambda>c. c \<noteq> CHR ''/'') ''3'' = ''3''"
  by simp_all

lemma fourth_field_eval:
  "v_idx d ''4/7/9'' = Inr 3" "resolves d 4 ''4/7/9''"
  "resolves d 4 ''1''" "resolves d 4 ''2''" "resolves d 4 ''3''"
proof -
  show v: "v_idx d ''4/7/9'' = Inr 3" by (auto simp: str_eval)
  then show "resolves d 4 ''4/7/9''" by (simp add: resolves_def)
  show "resolves d 4 ''1''" "resolves d 4 ''2''" "resolves d 4 ''3''"
    by (simp_all add: resolves_def v_idx_digit)
qed

lemma fourth_field_parse:
  assumes "float_parse env = digits_float" and "float_repr env = (\<lambda>n. str_nat n @ ''.0'')"
  shows "parse_obj env (vertex_lines3 @ [''v 1 1 0'', ''f 1 2 3 4/7/9'']) =
     Inr \<lparr>vertices = [''(0.0, 0.0, 0.0)'', ''(1.0, 0.0, 0.0)'', ''(0.0, 1.0, 0.0)'',
                       ''(1.0, 1.0, 0.0)''],
          faces = [0, 1, 2]\<rparr>"
proof -
  let ?four = "\<lparr>vertices = [''(0.0, 0.0, 0.0)'', ''(1.0, 0.0, 0.0)'', ''(0.0, 1.0, 0.0)'',
                       ''(1.0, 1.0, 0.0)''], faces = []\<rparr>"
  have p: "parse_lines env \<lparr>vertices = [], faces = []\<rparr> (vertex_lines3 @ [''v 1 1 0'']) = Inr ?four"
    using quad_parse(2) [OF assms] by (simp add: parse_obj_def)
  have q: "\<not> is_vertex_line env ''f 1 2 3 4/7/9''"
    by (simp add: face_not_vertex aux_line_eval)
  have r: "retained_face (int_max_str_digits env) 4 ''f 1 2 3 4/7/9''"
    by (simp add: retained_face_def aux_line_eval fourth_field_eval)
  have f: "face_of (int_max_str_digits env) ''f 1 2 3 4/7/9'' = [0, 1, 2]"
    by (simp add: face_of_def aux_line_eval idx_of_eval)
  have l: "length (vertices ?four) = 4" by simp
  have "parse_line env ?four ''f 1 2 3 4/7/9'' = Inr (?four\<lparr>faces := [0, 1, 2]\<rparr>)"
    using q r f by (simp only: parse_line_eq l if_True if_False) simp
  with p have "parse_lines env \<lparr>vertices = [], faces = []\<rparr>
      ((vertex_lines3 @ [''v 1 1 0'']) @ [''f 1 2 3 4/7/9'']) = Inr (?four\<lparr>faces := [0, 1, 2]\<rparr>)"
    by (simp only: parse_lines_append) simp
  then show ?thesis by (simp add: parse_obj_def)
qed

section \<open>The claims\<close>

text \<open>
  C1. Let an OBJ input have \<open>N\<close> vertex lines that parse and \<open>M\<close> face lines that are
  kept. The document written for it holds, read back from its text, a \<open>faceVertexCounts\<close>
  array of exactly \<open>M\<close> entries, all \<open>3\<close>; a \<open>faceVertexIndices\<close> array of \<open>3 M\<close>
  entries, the decimal texts of indices that all lie in \<open>[0, N)\<close>; and a \<open>points\<close> array
  of exactly \<open>N\<close> entries, each a triple \<open>(x, y, z)\<close>. This document is the single entry
  of the archive the fallback writes when a face is kept and no step fails. (The text a
  float prints as holds no line feed and no bracket.)
\<close>

theorem C1_document_arrays:
  "repr_ok env \<longrightarrow>
     (\<exists>m. parse_obj env ls = Inr m \<and>
        read_array ''faceVertexCounts'' (usd_content m) =
          Some (replicate (retained_count env 0 ls) ''3'') \<and>
        read_array ''faceVertexIndices'' (usd_content m) = Some (map str_int (faces m)) \<and>
        length (faces m) = 3 * retained_count env 0 ls \<and>
        (\<forall>i\<in>set (faces m). 0 \<le> i \<and> i < int (vertex_count env ls)) \<and>
        read_array ''points'' (usd_content m) = Some (vertices m) \<and>
        length (vertices m) = vertex_count env ls \<and>
        (\<forall>v\<in>set (vertices m). \<exists>x y z. v =
           ''('' @ float_repr env x @ '', '' @ float_repr env y @ '', '' @ float_repr env z @ '')'') \<and>
        (open_readlines env obj_path fs = Inr ls \<and> 1 \<le> retained_count env 0 ls \<and>
         no_fault env \<and> fs (tmp_name env) = None \<and> tmp_name env \<noteq> usdz_path \<longrightarrow>
           snd (fallback env obj_path usdz_path fs) usdz_path =
             Some \<lparr>content = Archive [(''model.usd'', usd_content m)],
                   fsize = zip_size env (usd_content m)\<rparr>))"
proof
  assume ok: "repr_ok env"
  obtain m where m: "parse_obj env ls = Inr m" using parse_obj_total by blast
  note fl = parse_obj_faces_length [OF m]
  note vl = parse_obj_vertex_count [OF m]
  have c: "read_array ''faceVertexCounts'' (usd_content m) =
      Some (replicate (retained_count env 0 ls) ''3'')"
    using fl by (simp add: read_counts face_vertex_counts_def)
  have i: "read_array ''faceVertexIndices'' (usd_content m) = Some (map str_int (faces m))"
    by (simp add: read_indices face_vertex_indices_def)
  have r: "\<forall>i\<in>set (faces m). 0 \<le> i \<and> i < int (vertex_count env ls)"
    using parse_obj_faces_range [OF m] vl by simp
  have p: "read_array ''points'' (usd_content m) = Some (vertices m)"
    using readable_vertices [OF ok m] by (rule read_points)
  note f = parse_obj_vertices_form [OF m]
  have a: "open_readlines env obj_path fs = Inr ls \<and> 1 \<le> retained_count env 0 ls \<and>
         no_fault env \<and> fs (tmp_name env) = None \<and> tmp_name env \<noteq> usdz_path \<longrightarrow>
           snd (fallback env obj_path usdz_path fs) usdz_path =
             Some \<lparr>content = Archive [(''model.usd'', usd_content m)],
                   fsize = zip_size env (usd_content m)\<rparr>"
  proof
    assume h: "open_readlines env obj_path fs = Inr ls \<and> 1 \<le> retained_count env 0 ls \<and>
         no_fault env \<and> fs (tmp_name env) = None \<and> tmp_name env \<noteq> usdz_path"
    with fl have fne: "faces m \<noteq> []" by auto
    from faces_need_vertices [OF m fne] have vne: "vertices m \<noteq> []" .
    from h fallback_geometry [OF _ m vne fne, of obj_path fs usdz_path]
    show "snd (fallback env obj_path usdz_path fs) usdz_path =
             Some \<lparr>content = Archive [(''model.usd'', usd_content m)],
                   fsize = zip_size env (usd_content m)\<rparr>"
      by (simp add: model_archive_def)
  qed
  from m c i fl r p vl f a
  show "\<exists>m. parse_obj env ls = Inr m \<and>
        read_array ''faceVertexCounts'' (usd_content m) =
          Some (replicate (retained_count env 0 ls) ''3'') \<and>
        read_array ''faceVertexIndices'' (usd_content m) = Some (map str_int (faces m)) \<and>
        length (faces m) = 3 * retained_count env 0 ls \<and>
        (\<forall>i\<in>set (faces m). 0 \<le> i \<and> i < int (vertex_count env ls)) \<and>
        read_array ''points'' (usd_content m) = Some (vertices m) \<and>
        length (vertices m) = vertex_count env ls \<and>
        (\<forall>v\<in>set (vertices m). \<exists>x y z. v =
           ''('' @ float_repr env x @ '', '' @ float_repr env y @ '', '' @ float_repr env z @ '')'') \<and>
        (open_readlines env obj_path fs = Inr ls \<and> 1 \<le> retained_count env 0 ls \<and>
         no_fault env \<and> fs (tmp_name env) = None \<and> tmp_name env \<noteq> usdz_path \<longrightarrow>
           snd (fallback env obj_path usdz_path fs) usdz_path =
             Some \<lparr>content = Archive [(''model.usd'', usd_content m)],
                   fsize = zip_size env (usd_content m)\<rparr>)"
    by blast
qed

theorem C1_witness:
  "vertex_count env0 (terminated mixed_lines) = 3 \<and>
   retained_count env0 0 (terminated mixed_lines) = 1 \<and>
   read_array ''faceVertexCounts'' (usd_content triangle_mesh) = Some [''3''] \<and>
   read_array ''faceVertexIndices'' (usd_content triangle_mesh) = Some [''0'', ''1'', ''2''] \<and>
   read_array ''points'' (usd_content triangle_mesh) =
     Some [''(0.0, 0.0, 0.0)'', ''(1.0, 0.0, 0.0)'', ''(0.0, 1.0, 0.0)''] \<and>
   snd (fallback env0 ''m.obj'' ''m.usdz'' mixed_fs) ''m.usdz'' =
     Some \<lparr>content = Archive [(''model.usd'', usd_content triangle_mesh)], fsize = 538\<rparr>"
proof -
  have p: "parse_obj env0 (terminated mixed_lines) = Inr triangle_mesh"
    by (simp add: mixed_parse env0_simps)
  have n: "vertex_count env0 (terminated mixed_lines) = 3 \<and>
      retained_count env0 0 (terminated mixed_lines) = 1"
    by (simp add: mixed_counts env0_simps)
  have o: "open_readlines env0 ''m.obj'' mixed_fs = Inr (terminated mixed_lines)"
    by (simp add: mixed_fs_def open_one_file readlines_mixed env0_simps)
  have f: "mixed_fs (tmp_name env0) = None" "tmp_name env0 \<noteq> ''m.usdz''"
    by (simp_all add: mixed_fs_def one_file_def env0_simps)
  have s: "map str_int (faces triangle_mesh) = [''0'', ''1'', ''2'']"
    by (simp add: triangle_mesh_def str_int_def str_nat_0_1)
  have v: "vertices triangle_mesh = [''(0.0, 0.0, 0.0)'', ''(1.0, 0.0, 0.0)'', ''(0.0, 1.0, 0.0)'']"
    by (simp add: triangle_mesh_def)
  from C1_document_arrays [where env = env0 and ls = "terminated mixed_lines"
      and obj_path = "''m.obj''" and usdz_path = "''m.usdz''" and fs = mixed_fs]
    repr_ok_env0(1) p n o f s v
  show ?thesis
    by (simp add: env0_simps triangle_doc_length)
qed







text \<open>
  C4 (as amended). Of an index field that is read only the integer before the first slash
  is used, and it is made 0-based by subtracting one: \<open>v_idx\<close> is \<open>int\<close> of the text
  before the first slash, minus one. The fields read are the first three of a face line: a
  retained line appends exactly their three values, each the 1-based integer \<open>k\<close> before
  the first slash of its field made \<open>k - 1\<close>, and two face lines whose first three fields
  agree before the first slash are read alike, whatever follows the slashes and whatever
  fields come after the third. In particular the lines \<open>v 0 0 0\<close>, \<open>v 1 0 0\<close>,
  \<open>v 0 1 0\<close>, \<open>f 1 2 3\<close> give the face indices \<open>[0, 1, 2]\<close> and the three points
  \<open>(0, 0, 0)\<close>, \<open>(1, 0, 0)\<close>, \<open>(0, 1, 0)\<close> as \<open>float\<close> prints them, and the document
  written for them, the single entry of the archive, holds the arrays \<open>faceVertexIndices\<close>
  \<open>[0, 1, 2]\<close>, \<open>points\<close> with these three triples and \<open>faceVertexCounts\<close> \<open>[3]\<close>.
  (\<open>float\<close> reads \<open>0\<close> and \<open>1\<close>, and the text a float prints as holds no line feed
  and no bracket.)
\<close>

theorem C4_leading_index_of_first_three:
  "v_idx maxd p =
     (case py_int maxd (takeWhile (\<lambda>c. c \<noteq> CHR ''/'') p) of
        Inl e \<Rightarrow> Inl e | Inr k \<Rightarrow> Inr (k - 1)) \<and>
   (retained_face (int_max_str_digits env) (length (vertices m)) raw \<longrightarrow>
      parse_line env m raw =
        Inr (m\<lparr>faces := faces m @
               map (idx_of (int_max_str_digits env)) (take 3 (face_fields raw))\<rparr>) \<and>
      list_all
        (\<lambda>q. \<exists>k. py_int (int_max_str_digits env) (takeWhile (\<lambda>c. c \<noteq> CHR ''/'') q) = Inr k \<and>
           idx_of (int_max_str_digits env) q = k - 1 \<and> 1 \<le> k \<and> k \<le> int (length (vertices m)))
        (take 3 (face_fields raw))) \<and>
   (is_face_line raw \<and> is_face_line raw' \<and>
    3 \<le> length (face_fields raw) \<and> 3 \<le> length (face_fields raw') \<and>
    map (takeWhile (\<lambda>c. c \<noteq> CHR ''/'')) (take 3 (face_fields raw)) =
      map (takeWhile (\<lambda>c. c \<noteq> CHR ''/'')) (take 3 (face_fields raw')) \<longrightarrow>
      parse_line env m raw = parse_line env m raw') \<and>
   (float_parse env ''0'' = Some z \<and> float_parse env ''1'' = Some u \<and> repr_ok env \<longrightarrow>
      (\<exists>t. parse_obj env (terminated triangle_lines) = Inr t \<and>
         faces t = [0, 1, 2] \<and>
         vertices t =
           [''('' @ float_repr env z @ '', '' @ float_repr env z @ '', '' @ float_repr env z @ '')'',
            ''('' @ float_repr env u @ '', '' @ float_repr env z @ '', '' @ float_repr env z @ '')'',
            ''('' @ float_repr env z @ '', '' @ float_repr env u @ '', '' @ float_repr env z @ '')''] \<and>
         read_array ''faceVertexIndices'' (usd_content t) = Some [''0'', ''1'', ''2''] \<and>
         read_array ''points'' (usd_content t) = Some (vertices t) \<and>
         read_array ''faceVertexCounts'' (usd_content t) = Some [''3''] \<and>
         (open_readlines env obj_path fs = Inr (terminated triangle_lines) \<and>
          no_fault env \<and> fs (tmp_name env) = None \<and> tmp_name env \<noteq> usdz_path \<longrightarrow>
            snd (fallback env obj_path usdz_path fs) usdz_path =
              Some \<lparr>content = Archive [(''model.usd'', usd_content t)],
                    fsize = zip_size env (usd_content t)\<rparr>)))"
proof (intro conjI impI)
  show "v_idx maxd p =
     (case py_int maxd (takeWhile (\<lambda>c. c \<noteq> CHR ''/'') p) of
        Inl e \<Rightarrow> Inl e | Inr k \<Rightarrow> Inr (k - 1))"
    by (rule v_idx_takeWhile)
next
  assume r: "retained_face (int_max_str_digits env) (length (vertices m)) raw"
  from parse_line_face [OF r]
  show "parse_line env m raw =
      Inr (m\<lparr>faces := faces m @ map (idx_of (int_max_str_digits env)) (take 3 (face_fields raw))\<rparr>)"
    by (simp add: face_of_def)
  from r show "list_all
        (\<lambda>q. \<exists>k. py_int (int_max_str_digits env) (takeWhile (\<lambda>c. c \<noteq> CHR ''/'') q) = Inr k \<and>
           idx_of (int_max_str_digits env) q = k - 1 \<and> 1 \<le> k \<and> k \<le> int (length (vertices m)))
        (take 3 (face_fields raw))"
    by (rule retained_leads)
next
  assume "is_face_line raw \<and> is_face_line raw' \<and>
    3 \<le> length (face_fields raw) \<and> 3 \<le> length (face_fields raw') \<and>
    map (takeWhile (\<lambda>c. c \<noteq> CHR ''/'')) (take 3 (face_fields raw)) =
      map (takeWhile (\<lambda>c. c \<noteq> CHR ''/'')) (take 3 (face_fields raw'))"
  then show "parse_line env m raw = parse_line env m raw'"
    using parse_line_lead [of raw raw' env m] by blast
next
  let ?vs = "[''('' @ float_repr env z @ '', '' @ float_repr env z @ '', '' @ float_repr env z @ '')'',
            ''('' @ float_repr env u @ '', '' @ float_repr env z @ '', '' @ float_repr env z @ '')'',
            ''('' @ float_repr env z @ '', '' @ float_repr env u @ '', '' @ float_repr env z @ '')'']"
  let ?t = "\<lparr>vertices = ?vs, faces = [0, 1, 2]\<rparr>"
  assume a: "float_parse env ''0'' = Some z \<and> float_parse env ''1'' = Some u \<and> repr_ok env"
  then have p: "parse_obj env (terminated triangle_lines) = Inr ?t"
    by (simp add: parse_obj_terminated triangle_parse)
  have f: "faces ?t = [0, 1, 2]" and v: "vertices ?t = ?vs" by simp_all
  from a have ok: "repr_ok env" by simp
  note arr = triangle_arrays [OF p f ok]
  have w: "open_readlines env obj_path fs = Inr (terminated triangle_lines) \<and>
          no_fault env \<and> fs (tmp_name env) = None \<and> tmp_name env \<noteq> usdz_path \<longrightarrow>
            snd (fallback env obj_path usdz_path fs) usdz_path =
              Some \<lparr>content = Archive [(''model.usd'', usd_content ?t)],
                    fsize = zip_size env (usd_content ?t)\<rparr>"
  proof
    assume b: "open_readlines env obj_path fs = Inr (terminated triangle_lines) \<and>
          no_fault env \<and> fs (tmp_name env) = None \<and> tmp_name env \<noteq> usdz_path"
    have "vertices ?t \<noteq> []" "faces ?t \<noteq> []" by simp_all
    from fallback_geometry [OF _ p this, of obj_path fs usdz_path] b
    show "snd (fallback env obj_path usdz_path fs) usdz_path =
              Some \<lparr>content = Archive [(''model.usd'', usd_content ?t)],
                    fsize = zip_size env (usd_content ?t)\<rparr>"
      by (simp add: model_archive_def)
  qed
  from p f v arr w
  show "\<exists>t. parse_obj env (terminated triangle_lines) = Inr t \<and>
         faces t = [0, 1, 2] \<and>
         vertices t = ?vs \<and>
         read_array ''faceVertexIndices'' (usd_content t) = Some [''0'', ''1'', ''2''] \<and>
         read_array ''points'' (usd_content t) = Some (vertices t) \<and>
         read_array ''faceVertexCounts'' (usd_content t) = Some [''3''] \<and>
         (open_readlines env obj_path fs = Inr (terminated triangle_lines) \<and>
          no_fault env \<and> fs (tmp_name env) = None \<and> tmp_name env \<noteq> usdz_path \<longrightarrow>
            snd (fallback env obj_path usdz_path fs) usdz_path =
              Some \<lparr>content = Archive [(''model.usd'', usd_content t)],
                    fsize = zip_size env (usd_content t)\<rparr>)"
    by blast
qed

theorem C4_witness:
  "v_idx 4300 ''2/7/9'' = Inr 1 \<and>
   parse_line env0 three_vertices ''f 3/1/1 1/2/2 2/3/3'' =
     Inr (three_vertices\<lparr>faces := [2, 0, 1]\<rparr>) \<and>
   parse_line env0 three_vertices ''f 3 1 2 2/7/9'' =
     Inr (three_vertices\<lparr>faces := [2, 0, 1]\<rparr>) \<and>
   (\<exists>t. parse_obj env0 (terminated triangle_lines) = Inr t \<and>
      faces t = [0, 1, 2] \<and>
      vertices t = [''(0.0, 0.0, 0.0)'', ''(1.0, 0.0, 0.0)'', ''(0.0, 1.0, 0.0)''] \<and>
      read_array ''faceVertexIndices'' (usd_content t) = Some [''0'', ''1'', ''2''] \<and>
      read_array ''points'' (usd_content t) =
        Some [''(0.0, 0.0, 0.0)'', ''(1.0, 0.0, 0.0)'', ''(0.0, 1.0, 0.0)''] \<and>
      read_array ''faceVertexCounts'' (usd_content t) = Some [''3''] \<and>
      snd (fallback env0 ''m.obj'' ''m.usdz'' triangle_fs) ''m.usdz'' =
        Some \<lparr>content = Archive [(''model.usd'', usd_content t)],
              fsize = length (usd_content t) + 128\<rparr>)"
proof -
  let ?a = "''f 3/1/1 1/2/2 2/3/3''"
  let ?b = "''f 3 1 2 2/7/9''"
  have d: "int_max_str_digits env0 = 4300" by (simp add: env0_simps)
  have h1: "retained_face 4300 (length (vertices three_vertices)) ?a"
    by (simp add: retained_face_def is_face_line_eval face_fields_eval resolves_eval
        three_vertices_simps)
  have e1: "map (idx_of 4300) (take 3 (face_fields ?a)) = [2, 0, 1]"
    by (simp add: face_fields_eval idx_of_eval)
  have h2: "is_face_line ?b \<and> is_face_line ?a \<and>
      3 \<le> length (face_fields ?b) \<and> 3 \<le> length (face_fields ?a) \<and>
      map (takeWhile (\<lambda>c. c \<noteq> CHR ''/'')) (take 3 (face_fields ?b)) =
        map (takeWhile (\<lambda>c. c \<noteq> CHR ''/'')) (take 3 (face_fields ?a))"
    by (simp add: is_face_line_eval face_fields_eval aux_line_eval)
  have h3: "float_parse env0 ''0'' = Some 0 \<and> float_parse env0 ''1'' = Some 1 \<and> repr_ok env0"
    by (simp add: env0_simps digits_float_0_1 repr_ok_env0)
  have h4: "open_readlines env0 ''m.obj'' triangle_fs = Inr (terminated triangle_lines) \<and>
      no_fault env0 \<and> triangle_fs (tmp_name env0) = None \<and> tmp_name env0 \<noteq> ''m.usdz''"
    by (simp add: triangle_fs_open env0_simps triangle_fs_simps)
  have fr: "float_repr env0 0 = ''0.0''" "float_repr env0 1 = ''1.0''"
    "float_repr env0 (Suc 0) = ''1.0''"
    by (simp_all add: env0_simps str_nat_0_1)
  have z: "\<And>s. zip_size env0 s = length s + 128" by (simp add: env0_simps)
  note inst1 = C4_leading_index_of_first_three [where maxd = 4300 and p = "''2/7/9''"
      and env = env0 and m = three_vertices and raw = ?a and raw' = ?a and z = 0 and u = 1
      and obj_path = "''m.obj''" and usdz_path = "''m.usdz''" and fs = triangle_fs]
  note inst2 = C4_leading_index_of_first_three [where maxd = 4300 and p = "''2/7/9''"
      and env = env0 and m = three_vertices and raw = ?b and raw' = ?a and z = 0 and u = 1
      and obj_path = "''m.obj''" and usdz_path = "''m.usdz''" and fs = triangle_fs]
  from inst1 have a: "v_idx 4300 ''2/7/9'' = Inr 1"
    by (simp add: lead_eval py_int_2)
  from inst1 h1 e1 d
  have b: "parse_line env0 three_vertices ?a = Inr (three_vertices\<lparr>faces := [2, 0, 1]\<rparr>)"
    by (simp add: three_vertices_simps)
  from inst2 h2 have "parse_line env0 three_vertices ?b = parse_line env0 three_vertices ?a"
    by blast
  with b have c: "parse_line env0 three_vertices ?b = Inr (three_vertices\<lparr>faces := [2, 0, 1]\<rparr>)"
    by simp
  from inst1 h3 h4 obtain t where t: "parse_obj env0 (terminated triangle_lines) = Inr t"
      "faces t = [0, 1, 2]"
      "vertices t =
           [''('' @ float_repr env0 0 @ '', '' @ float_repr env0 0 @ '', '' @ float_repr env0 0 @ '')'',
            ''('' @ float_repr env0 1 @ '', '' @ float_repr env0 0 @ '', '' @ float_repr env0 0 @ '')'',
            ''('' @ float_repr env0 0 @ '', '' @ float_repr env0 1 @ '', '' @ float_repr env0 0 @ '')'']"
      "read_array ''faceVertexIndices'' (usd_content t) = Some [''0'', ''1'', ''2'']"
      "read_array ''points'' (usd_content t) = Some (vertices t)"
      "read_array ''faceVertexCounts'' (usd_content t) = Some [''3'']"
      "snd (fallback env0 ''m.obj'' ''m.usdz'' triangle_fs) ''m.usdz'' =
        Some \<lparr>content = Archive [(''model.usd'', usd_content t)],
              fsize = zip_size env0 (usd_content t)\<rparr>"
    by blast
  from t(3) have v: "vertices t = [''(0.0, 0.0, 0.0)'', ''(1.0, 0.0, 0.0)'', ''(0.0, 1.0, 0.0)'']"
    by (simp add: fr)
  from t(5) v have pt: "read_array ''points'' (usd_content t) =
        Some [''(0.0, 0.0, 0.0)'', ''(1.0, 0.0, 0.0)'', ''(0.0, 1.0, 0.0)'']"
    by simp
  from t(7) have ar: "snd (fallback env0 ''m.obj'' ''m.usdz'' triangle_fs) ''m.usdz'' =
        Some \<lparr>content = Archive [(''model.usd'', usd_content t)],
              fsize = length (usd_content t) + 128\<rparr>"
    by (simp add: z)
  from t(1,2) v t(4) pt t(6) ar
  have "\<exists>t. parse_obj env0 (terminated triangle_lines) = Inr t \<and>
      faces t = [0, 1, 2] \<and>
      vertices t = [''(0.0, 0.0, 0.0)'', ''(1.0, 0.0, 0.0)'', ''(0.0, 1.0, 0.0)''] \<and>
      read_array ''faceVertexIndices'' (usd_content t) = Some [''0'', ''1'', ''2''] \<and>
      read_array ''points'' (usd_content t) =
        Some [''(0.0, 0.0, 0.0)'', ''(1.0, 0.0, 0.0)'', ''(0.0, 1.0, 0.0)''] \<and>
      read_array ''faceVertexCounts'' (usd_content t) = Some [''3''] \<and>
      snd (fallback env0 ''m.obj'' ''m.usdz'' triangle_fs) ''m.usdz'' =
        Some \<lparr>content = Archive [(''model.usd'', usd_content t)],
              fsize = length (usd_content t) + 128\<rparr>"
    by blast
  with a b c show ?thesis by blast
qed

text \<open>
  The claim as stated fails for a field after the third: after four vertices the line
  \<open>f 1 2 3 4/7/9\<close> has the index field \<open>4/7/9\<close>, whose integer before the slash is 4,
  0-based 3, the index of a vertex that exists; the field is not read, and the index 3 is
  not among the face indices kept.
\<close>

theorem C4_counterexample:
  "is_face_line ''f 1 2 3 4/7/9'' \<and>
   face_fields ''f 1 2 3 4/7/9'' = [''1'', ''2'', ''3'', ''4/7/9''] \<and>
   v_idx 4300 ''4/7/9'' = Inr 3 \<and>
   resolves 4300 4 ''4/7/9'' \<and>
   parse_obj env0 (vertex_lines3 @ [''v 1 1 0'', ''f 1 2 3 4/7/9'']) =
     Inr \<lparr>vertices = [''(0.0, 0.0, 0.0)'', ''(1.0, 0.0, 0.0)'', ''(0.0, 1.0, 0.0)'',
                       ''(1.0, 1.0, 0.0)''],
          faces = [0, 1, 2]\<rparr> \<and>
   (3 :: int) \<notin> set [0, 1, 2]"
  by (simp add: aux_line_eval fourth_field_eval fourth_field_parse env0_simps)

text \<open>
  C5. Round trip. Whenever the fallback returns True, the destination holds an archive
  with exactly one entry, named \<open>model.usd\<close>, whose data is the document of the mesh read
  from the OBJ lines; and reading the arrays of that entry back gives as many points as
  vertex lines were parsed and as many face vertex counts (and a third as many face vertex
  indices) as face lines were kept: the counts after the drops, which are both positive.
  (The text a float prints as holds no line feed and no bracket.)
\<close>

theorem C5_round_trip:
  "fallback env obj_path usdz_path fs = (Inr True, fs_end) \<and> repr_ok env \<longrightarrow>
     (\<exists>ls m doc.
        open_readlines env obj_path fs = Inr ls \<and> parse_obj env ls = Inr m \<and>
        doc = usd_content m \<and>
        map_option content (fs_end usdz_path) = Some (Archive [(''model.usd'', doc)]) \<and>
        read_array ''points'' doc = Some (vertices m) \<and>
        read_array ''faceVertexCounts'' doc = Some (replicate (length (faces m) div 3) ''3'') \<and>
        read_array ''faceVertexIndices'' doc = Some (map str_int (faces m)) \<and>
        length (vertices m) = vertex_count env ls \<and>
        length (faces m) div 3 = retained_count env 0 ls \<and>
        length (faces m) = 3 * retained_count env 0 ls \<and>
        0 < vertex_count env ls \<and> 0 < retained_count env 0 ls)"
proof
  assume a: "fallback env obj_path usdz_path fs = (Inr True, fs_end) \<and> repr_ok env"
  then have run: "fallback env obj_path usdz_path fs = (Inr True, fs_end)" and ok: "repr_ok env"
    by simp_all
  from fallback_True_cases [OF run] obtain ls m where
    o: "open_readlines env obj_path fs = Inr ls" and m: "parse_obj env ls = Inr m" and
    vne: "vertices m \<noteq> []" and fne: "faces m \<noteq> []" and
    e: "fs_end = fs(usdz_path \<mapsto> model_archive env (usd_content m))"
    by blast
  note fl = parse_obj_faces_length [OF m]
  note vl = parse_obj_vertex_count [OF m]
  from e have c: "map_option content (fs_end usdz_path) =
      Some (Archive [(''model.usd'', usd_content m)])"
    by (simp add: model_archive_def)
  have p: "read_array ''points'' (usd_content m) = Some (vertices m)"
    using readable_vertices [OF ok m] by (rule read_points)
  have k: "read_array ''faceVertexCounts'' (usd_content m) =
      Some (replicate (length (faces m) div 3) ''3'')"
    by (simp add: read_counts face_vertex_counts_def)
  have i: "read_array ''faceVertexIndices'' (usd_content m) = Some (map str_int (faces m))"
    by (simp add: read_indices face_vertex_indices_def)
  from fl have d: "length (faces m) div 3 = retained_count env 0 ls" by simp
  from vne vl have vp: "0 < vertex_count env ls" by (cases "vertices m") auto
  from fne fl have fp: "0 < retained_count env 0 ls" by (cases "faces m") auto
  from o m c p k i vl d fl vp fp
  show "\<exists>ls m doc.
        open_readlines env obj_path fs = Inr ls \<and> parse_obj env ls = Inr m \<and>
        doc = usd_content m \<and>
        map_option content (fs_end usdz_path) = Some (Archive [(''model.usd'', doc)]) \<and>
        read_array ''points'' doc = Some (vertices m) \<and>
        read_array ''faceVertexCounts'' doc = Some (replicate (length (faces m) div 3) ''3'') \<and>
        read_array ''faceVertexIndices'' doc = Some (map str_int (faces m)) \<and>
        length (vertices m) = vertex_count env ls \<and>
        length (faces m) div 3 = retained_count env 0 ls \<and>
        length (faces m) = 3 * retained_count env 0 ls \<and>
        0 < vertex_count env ls \<and> 0 < retained_count env 0 ls"
    by blast
qed

theorem C5_witness:
  "fallback env_large ''m.obj'' ''m.usdz'' mixed_fs =
     (Inr True, mixed_fs(''m.usdz'' \<mapsto> model_archive env_large (usd_content triangle_mesh))) \<and>
   open_readlines env_large ''m.obj'' mixed_fs = Inr (terminated mixed_lines) \<and>
   length (terminated mixed_lines) = 7 \<and>
   vertex_count env_large (terminated mixed_lines) = 3 \<and>
   retained_count env_large 0 (terminated mixed_lines) = 1 \<and>
   (\<exists>m. parse_obj env_large (terminated mixed_lines) = Inr m \<and>
      map_option content
        ((mixed_fs(''m.usdz'' \<mapsto> model_archive env_large (usd_content triangle_mesh))) ''m.usdz'') =
        Some (Archive [(''model.usd'', usd_content m)]) \<and>
      map_option length (read_array ''points'' (usd_content m)) = Some 3 \<and>
      map_option length (read_array ''faceVertexCounts'' (usd_content m)) = Some 1 \<and>
      map_option length (read_array ''faceVertexIndices'' (usd_content m)) = Some 3)"
proof -
  let ?end = "mixed_fs(''m.usdz'' \<mapsto> model_archive env_large (usd_content triangle_mesh))"
  have run: "fallback env_large ''m.obj'' ''m.usdz'' mixed_fs = (Inr True, ?end)"
    by (simp add: mixed_run env_large_simps)
  have o: "open_readlines env_large ''m.obj'' mixed_fs = Inr (terminated mixed_lines)"
    by (simp add: mixed_fs_def open_one_file readlines_mixed env_large_simps)
  have n: "vertex_count env_large (terminated mixed_lines) = 3 \<and>
      retained_count env_large 0 (terminated mixed_lines) = 1"
    by (simp add: mixed_counts env_large_simps)
  have l: "length (terminated mixed_lines) = 7"
    by (simp add: terminated_def mixed_lines_def triangle_lines_def)
  from C5_round_trip [where env = env_large and obj_path = "''m.obj''" and usdz_path = "''m.usdz''"
      and fs = mixed_fs and fs_end = ?end] run repr_ok_env0(2) o
  obtain m where
    "parse_obj env_large (terminated mixed_lines) = Inr m"
    "map_option content (?end ''m.usdz'') = Some (Archive [(''model.usd'', usd_content m)])"
    "read_array ''points'' (usd_content m) = Some (vertices m)"
    "read_array ''faceVertexCounts'' (usd_content m) = Some (replicate (length (faces m) div 3) ''3'')"
    "read_array ''faceVertexIndices'' (usd_content m) = Some (map str_int (faces m))"
    "length (vertices m) = vertex_count env_large (terminated mixed_lines)"
    "length (faces m) div 3 = retained_count env_large 0 (terminated mixed_lines)"
    "length (faces m) = 3 * retained_count env_large 0 (terminated mixed_lines)"
    by auto
  with n have "parse_obj env_large (terminated mixed_lines) = Inr m \<and>
      map_option content (?end ''m.usdz'') = Some (Archive [(''model.usd'', usd_content m)]) \<and>
      map_option length (read_array ''points'' (usd_content m)) = Some 3 \<and>
      map_option length (read_array ''faceVertexCounts'' (usd_content m)) = Some 1 \<and>
      map_option length (read_array ''faceVertexIndices'' (usd_content m)) = Some 3"
    by simp
  with run o l n show ?thesis by blast
qed

text \<open>
  C6. The claim does not hold of the code: the temporary document is removed by an
  \<open>os.unlink\<close> that is reached only when writing the archive raised nothing. With an OBJ
  file holding the triangle and a destination that cannot be opened for writing (the
  directory does not exist, \<open>ZipFile\<close> raises \<open>FileNotFoundError\<close>), \<open>convert_to_usdz\<close>
  returns False and the temporary file is still there, holding the document.
\<close>

theorem C6_temp_file_left_behind:
  "fst (convert_to_usdz (env_fault ZipOpen FileNotFoundError) ''m.obj'' ''/no/dir/m.usdz''
          triangle_fs) = Inr False \<and>
   snd (convert_to_usdz (env_fault ZipOpen FileNotFoundError) ''m.obj'' ''/no/dir/m.usdz''
          triangle_fs) (tmp_name (env_fault ZipOpen FileNotFoundError)) =
     Some (text_file (usd_content triangle_mesh))"
  by (simp add: zip_fault_run env_fault_simps env0_simps)

text \<open>
  C7 (as amended). When \<open>convert_to_usdz\<close> returns False, the destination is as the
  attempt with the external tool left it (so absent, if it was absent then), or it is a
  complete archive with the single entry \<open>model.usd\<close>, or, only where writing the archive
  raised, it is a partially written archive: the function does not remove or repair the
  destination on failure. (The name of the temporary file is not the destination.)
\<close>

theorem C7_destination_after_failure:
  "convert_to_usdz env obj_path usdz_path fs = (Inr False, fs_end) \<and>
   tool_attempt env obj_path usdz_path fs = (r, fs_tool) \<and> tmp_name env \<noteq> usdz_path \<longrightarrow>
     fs_end usdz_path = fs_tool usdz_path \<or>
     (\<exists>d. fs_end usdz_path = Some (model_archive env d)) \<or>
     (fault env ZipWrite \<noteq> None \<and>
      fs_end usdz_path = Some \<lparr>content = Partial, fsize = partial_size env\<rparr>)"
proof
  assume a: "convert_to_usdz env obj_path usdz_path fs = (Inr False, fs_end) \<and>
   tool_attempt env obj_path usdz_path fs = (r, fs_tool) \<and> tmp_name env \<noteq> usdz_path"
  then have ne: "tmp_name env \<noteq> usdz_path" by simp
  have nt: "r \<noteq> Inr True"
  proof
    assume "r = Inr True"
    with a have "tool_attempt env obj_path usdz_path fs = (Inr True, fs_tool)" by simp
    then have "convert_to_usdz env obj_path usdz_path fs = (Inr True, fs_tool)"
      by (rule convert_tool_success)
    with a show False by simp
  qed
  with a have c: "fallback_caught env obj_path usdz_path fs_tool = (Inr False, fs_end)"
    using convert_fallthrough [of env obj_path usdz_path fs r fs_tool] by simp
  obtain r2 where f: "fallback env obj_path usdz_path fs_tool = (r2, fs_end)"
    using fallback_caught_False_snd [OF c] by blast
  from fallback_cases [OF f ne]
  show "fs_end usdz_path = fs_tool usdz_path \<or>
     (\<exists>d. fs_end usdz_path = Some (model_archive env d)) \<or>
     (fault env ZipWrite \<noteq> None \<and>
      fs_end usdz_path = Some \<lparr>content = Partial, fsize = partial_size env\<rparr>)"
    using ne by (elim disjE exE conjE) auto
qed

theorem C7_witness:
  "fst (convert_to_usdz env0 ''m.obj'' ''m.usdz'' triangle_fs) = Inr False \<and>
   (snd (convert_to_usdz env0 ''m.obj'' ''m.usdz'' triangle_fs) ''m.usdz'' = triangle_fs ''m.usdz'' \<or>
    (\<exists>d. snd (convert_to_usdz env0 ''m.obj'' ''m.usdz'' triangle_fs) ''m.usdz'' =
       Some (model_archive env0 d)) \<or>
    (fault env0 ZipWrite \<noteq> None \<and>
     snd (convert_to_usdz env0 ''m.obj'' ''m.usdz'' triangle_fs) ''m.usdz'' =
       Some \<lparr>content = Partial, fsize = 0\<rparr>))"
proof -
  let ?fs = "snd (convert_to_usdz env0 ''m.obj'' ''m.usdz'' triangle_fs)"
  have c: "convert_to_usdz env0 ''m.obj'' ''m.usdz'' triangle_fs = (Inr False, ?fs)"
    by (simp add: triangle_run_env0)
  have t: "tool_attempt env0 ''m.obj'' ''m.usdz'' triangle_fs = (Inl FileNotFoundError, triangle_fs)"
    by (simp add: no_tool_attempt env0_simps)
  have n: "tmp_name env0 \<noteq> ''m.usdz''"
    by (simp add: env0_simps)
  from C7_destination_after_failure [where env = env0 and obj_path = "''m.obj''"
      and usdz_path = "''m.usdz''" and fs = triangle_fs and fs_end = ?fs
      and r = "Inl FileNotFoundError" and fs_tool = triangle_fs] c t n
  show ?thesis by (simp add: triangle_run_env0 env0_simps(8))
qed

text \<open>
  The claim as stated fails where writing the archive raises (the disk is full, say):
  \<open>ZipFile\<close> has created the destination, the write raises \<open>OSError\<close>, the function
  returns False, and the partially written archive stays at the destination.
\<close>

theorem C7_counterexample:
  "fst (convert_to_usdz (env_fault ZipWrite OSError) ''m.obj'' ''m.usdz'' triangle_fs) =
     Inr False \<and>
   triangle_fs ''m.usdz'' = None \<and>
   snd (convert_to_usdz (env_fault ZipWrite OSError) ''m.obj'' ''m.usdz'' triangle_fs) ''m.usdz'' =
     Some \<lparr>content = Partial, fsize = 0\<rparr>"
  by (simp add: zip_fault_run triangle_fs_simps)

text \<open>
  C8 (as amended). Every exception raised in the body of either \<open>try\<close> is caught inside
  \<open>convert_to_usdz\<close>. Reading the lines raises nothing past the loop's own handlers. An
  exception of the external tool is swallowed, and what the fallback returns is returned.
  An exception of the fallback, at opening the OBJ file or at creating the temporary file
  say, reaches the last handler, and the function returns False, provided the handler's
  own writes to \<open>stderr\<close> raise nothing. So with \<open>stderr\<close> writable the function always
  returns a boolean; and an exception reaches the caller exactly when the tool attempt has
  not returned True, the fallback has raised, and the handler's report raises in turn: it
  is then the exception of the report.
\<close>

theorem C8_caught_unless_report_raises:
  "(\<exists>m. parse_obj env ls = Inr m) \<and>
   (tool_attempt env obj_path usdz_path fs = (Inl e1, fs_tool) \<and>
    fallback env obj_path usdz_path fs_tool = (Inr b, fs_end) \<longrightarrow>
      convert_to_usdz env obj_path usdz_path fs = (Inr b, fs_end)) \<and>
   (tool_attempt env obj_path usdz_path fs = (r, fs_tool) \<and> r \<noteq> Inr True \<and>
    fallback env obj_path usdz_path fs_tool = (Inl e2, fs_end) \<longrightarrow>
      convert_to_usdz env obj_path usdz_path fs =
        (case report_error env of Inl e' \<Rightarrow> Inl e' | Inr u \<Rightarrow> Inr False, fs_end)) \<and>
   (tool_attempt env obj_path usdz_path fs = (r, fs_tool) \<and> r \<noteq> Inr True \<and>
    (open_readlines env obj_path fs_tool = Inl e2 \<or>
     open_readlines env obj_path fs_tool = Inr ls \<and> 1 \<le> retained_count env 0 ls \<and>
     fault env TempCreate = Some e2) \<longrightarrow>
      fallback env obj_path usdz_path fs_tool = (Inl e2, fs_tool) \<and>
      convert_to_usdz env obj_path usdz_path fs =
        (case report_error env of Inl e' \<Rightarrow> Inl e' | Inr u \<Rightarrow> Inr False, fs_tool)) \<and>
   (report_error env = Inr () \<longrightarrow>
      (\<exists>b' fs'. convert_to_usdz env obj_path usdz_path fs = (Inr b', fs'))) \<and>
   (convert_to_usdz env obj_path usdz_path fs = (Inl e, fs_end) \<longleftrightarrow>
      (\<exists>r' fs' e0. tool_attempt env obj_path usdz_path fs = (r', fs') \<and> r' \<noteq> Inr True \<and>
         fallback env obj_path usdz_path fs' = (Inl e0, fs_end) \<and>
         report_error env = Inl e))"
proof (intro conjI impI)
  show "\<exists>m. parse_obj env ls = Inr m" by (rule parse_obj_total)
next
  assume "tool_attempt env obj_path usdz_path fs = (Inl e1, fs_tool) \<and>
    fallback env obj_path usdz_path fs_tool = (Inr b, fs_end)"
  then show "convert_to_usdz env obj_path usdz_path fs = (Inr b, fs_end)"
    by (simp add: convert_fallthrough fallback_caught_Inr)
next
  assume "tool_attempt env obj_path usdz_path fs = (r, fs_tool) \<and> r \<noteq> Inr True \<and>
    fallback env obj_path usdz_path fs_tool = (Inl e2, fs_end)"
  then show "convert_to_usdz env obj_path usdz_path fs =
        (case report_error env of Inl e' \<Rightarrow> Inl e' | Inr u \<Rightarrow> Inr False, fs_end)"
    by (simp add: convert_fallthrough [of env obj_path usdz_path fs r fs_tool] fallback_caught_eq
        split: sum.splits)
next
  assume a: "tool_attempt env obj_path usdz_path fs = (r, fs_tool) \<and> r \<noteq> Inr True \<and>
    (open_readlines env obj_path fs_tool = Inl e2 \<or>
     open_readlines env obj_path fs_tool = Inr ls \<and> 1 \<le> retained_count env 0 ls \<and>
     fault env TempCreate = Some e2)"
  then show f: "fallback env obj_path usdz_path fs_tool = (Inl e2, fs_tool)"
    using fallback_open_raises [of env obj_path fs_tool e2 usdz_path]
      fallback_create_raises [of env obj_path fs_tool ls e2 usdz_path]
    by blast
  with a show "convert_to_usdz env obj_path usdz_path fs =
        (case report_error env of Inl e' \<Rightarrow> Inl e' | Inr u \<Rightarrow> Inr False, fs_tool)"
    by (simp add: convert_fallthrough [of env obj_path usdz_path fs r fs_tool] fallback_caught_eq
        split: sum.splits)
next
  obtain r0 fs0 where t: "tool_attempt env obj_path usdz_path fs = (r0, fs0)"
    by (cases "tool_attempt env obj_path usdz_path fs")
  show "\<exists>b' fs'. convert_to_usdz env obj_path usdz_path fs = (Inr b', fs')"
    if ok: "report_error env = Inr ()"
  proof (cases "r0 = Inr True")
    case True
    with t have "convert_to_usdz env obj_path usdz_path fs = (Inr True, fs0)"
      by (simp add: convert_tool_success)
    then show ?thesis by blast
  next
    case False
    with t fallback_caught_returns [OF ok, of obj_path usdz_path fs0] show ?thesis
      by (simp add: convert_fallthrough)
  qed
  show "convert_to_usdz env obj_path usdz_path fs = (Inl e, fs_end) \<longleftrightarrow>
      (\<exists>r' fs' e0. tool_attempt env obj_path usdz_path fs = (r', fs') \<and> r' \<noteq> Inr True \<and>
         fallback env obj_path usdz_path fs' = (Inl e0, fs_end) \<and>
         report_error env = Inl e)"
  proof (cases "r0 = Inr True")
    case True
    with t have "convert_to_usdz env obj_path usdz_path fs = (Inr True, fs0)"
      by (simp add: convert_tool_success)
    with t True show ?thesis by simp
  next
    case False
    with t have "convert_to_usdz env obj_path usdz_path fs =
        fallback_caught env obj_path usdz_path fs0"
      by (simp add: convert_fallthrough)
    with t False show ?thesis by (simp add: fallback_caught_Inl_iff)
  qed
qed

theorem C8_witness:
  "convert_to_usdz env0 ''m.obj'' ''m.usdz'' triangle_fs =
     (Inr False, triangle_fs(''m.usdz'' \<mapsto> model_archive env0 (usd_content triangle_mesh))) \<and>
   convert_to_usdz (env_fault OpenObj OSError) ''m.obj'' ''m.usdz'' triangle_fs =
     (Inr False, triangle_fs) \<and>
   convert_to_usdz (env_fault TempCreate OSError) ''m.obj'' ''m.usdz'' triangle_fs =
     (Inr False, triangle_fs) \<and>
   (\<exists>b fs'. convert_to_usdz (env_fault ZipWrite OSError) ''m.obj'' ''m.usdz'' triangle_fs =
      (Inr b, fs')) \<and>
   convert_to_usdz env_closed_stderr ''missing.obj'' ''m.usdz'' triangle_fs =
     (Inl ValueError, triangle_fs)"
proof -
  let ?end = "triangle_fs(''m.usdz'' \<mapsto> model_archive env0 (usd_content triangle_mesh))"
  let ?eo = "env_fault OpenObj OSError"
  let ?ec = "env_fault TempCreate OSError"
  let ?ez = "env_fault ZipWrite OSError"
  have t0: "tool_attempt env0 ''m.obj'' ''m.usdz'' triangle_fs = (Inl FileNotFoundError, triangle_fs)"
    by (simp add: no_tool_attempt env0_simps)
  have f0: "fallback env0 ''m.obj'' ''m.usdz'' triangle_fs = (Inr False, ?end)"
    by (simp add: triangle_run env0_simps triangle_doc_length)
  from C8_caught_unless_report_raises [where env = env0 and obj_path = "''m.obj''"
      and usdz_path = "''m.usdz''" and fs = triangle_fs and ?e1.0 = FileNotFoundError
      and fs_tool = triangle_fs and b = False and fs_end = ?end] t0 f0
  have a: "convert_to_usdz env0 ''m.obj'' ''m.usdz'' triangle_fs = (Inr False, ?end)"
    by blast
  have to: "tool_attempt ?eo ''m.obj'' ''m.usdz'' triangle_fs = (Inl FileNotFoundError, triangle_fs)"
    by (simp add: no_tool_attempt env_fault_simps)
  have oo: "open_readlines ?eo ''m.obj'' triangle_fs = Inl OSError"
    by (simp add: open_readlines_def env_fault_simps)
  have ro: "report_error ?eo = Inr ()" by (simp add: env_fault_report)
  from C8_caught_unless_report_raises [where env = ?eo and obj_path = "''m.obj''"
      and usdz_path = "''m.usdz''" and fs = triangle_fs and r = "Inl FileNotFoundError"
      and fs_tool = triangle_fs and ?e2.0 = OSError] to oo ro
  have b: "convert_to_usdz ?eo ''m.obj'' ''m.usdz'' triangle_fs = (Inr False, triangle_fs)"
    by simp
  have tc: "tool_attempt ?ec ''m.obj'' ''m.usdz'' triangle_fs = (Inl FileNotFoundError, triangle_fs)"
    by (simp add: no_tool_attempt env_fault_simps)
  have oc: "open_readlines ?ec ''m.obj'' triangle_fs = Inr (terminated triangle_lines)"
    by (simp add: triangle_fs_open env_fault_simps)
  have cc: "1 \<le> retained_count ?ec 0 (terminated triangle_lines)"
    by (simp add: triangle_retained_count env_fault_simps)
  have fc: "fault ?ec TempCreate = Some OSError" by (simp add: env_fault_simps)
  have rc: "report_error ?ec = Inr ()" by (simp add: env_fault_report)
  from C8_caught_unless_report_raises [where env = ?ec and obj_path = "''m.obj''"
      and usdz_path = "''m.usdz''" and fs = triangle_fs and r = "Inl FileNotFoundError"
      and fs_tool = triangle_fs and ?e2.0 = OSError and ls = "terminated triangle_lines"]
    tc oc cc fc rc
  have c: "convert_to_usdz ?ec ''m.obj'' ''m.usdz'' triangle_fs = (Inr False, triangle_fs)"
    by simp
  have rz: "report_error ?ez = Inr ()" by (simp add: env_fault_report)
  from C8_caught_unless_report_raises [where env = ?ez and obj_path = "''m.obj''"
      and usdz_path = "''m.usdz''" and fs = triangle_fs] rz
  have d: "\<exists>b fs'. convert_to_usdz ?ez ''m.obj'' ''m.usdz'' triangle_fs = (Inr b, fs')"
    by blast
  have ts: "tool_attempt env_closed_stderr ''missing.obj'' ''m.usdz'' triangle_fs =
      (Inl FileNotFoundError, triangle_fs)"
    by (simp add: no_tool_attempt env_closed_stderr_simps)
  have "open_readlines env_closed_stderr ''missing.obj'' triangle_fs = Inl FileNotFoundError"
    by (simp add: open_readlines_def env_closed_stderr_simps triangle_fs_simps)
  then have fs: "fallback env_closed_stderr ''missing.obj'' ''m.usdz'' triangle_fs =
      (Inl FileNotFoundError, triangle_fs)"
    by (rule fallback_open_raises)
  have rs: "report_error env_closed_stderr = Inl ValueError"
    by (simp add: env_closed_stderr_simps)
  from C8_caught_unless_report_raises [where env = env_closed_stderr
      and obj_path = "''missing.obj''" and usdz_path = "''m.usdz''" and fs = triangle_fs
      and e = ValueError and fs_end = triangle_fs] ts fs rs
  have e: "convert_to_usdz env_closed_stderr ''missing.obj'' ''m.usdz'' triangle_fs =
      (Inl ValueError, triangle_fs)"
    by blast
  from a b c d e show ?thesis by blast
qed

text \<open>
  The claim as stated fails where \<open>stderr\<close> is closed: with no file at \<open>m.obj\<close> and the
  external tool not installed, opening the OBJ file raises \<open>FileNotFoundError\<close>, the
  handler catches it, its \<open>print\<close> to the closed stream raises \<open>ValueError\<close>, and this
  exception reaches the caller. With \<open>stderr\<close> open the same call returns False.
\<close>

theorem C8_counterexample:
  "convert_to_usdz env_closed_stderr ''m.obj'' ''m.usdz'' no_files =
     (Inl ValueError, no_files) \<and>
   convert_to_usdz env0 ''m.obj'' ''m.usdz'' no_files = (Inr False, no_files)"
  by (simp add: no_files_run env_closed_stderr_simps env0_simps)

text \<open>
  C9. \<open>convert_to_usdz\<close> returns True only if, in the file system it leaves, the destination
  exists and is larger than 1000 bytes. An undersized or missing output is no success on
  either path: after the external tool has exited with code 0 the first block does not
  return and the fallback runs, and the fallback itself returns False.
\<close>

theorem C9_size_guard:
  "(convert_to_usdz env obj_path usdz_path fs = (Inr True, fs_end) \<longrightarrow>
      (\<exists>f. fs_end usdz_path = Some f \<and> 1000 < fsize f)) \<and>
   (usdzconvert env obj_path usdz_path fs = (Inr 0, fs_tool) \<and>
    (case fs_tool usdz_path of None \<Rightarrow> True | Some f \<Rightarrow> fsize f \<le> 1000) \<longrightarrow>
      tool_attempt env obj_path usdz_path fs = (Inr False, fs_tool)) \<and>
   (fallback env obj_path usdz_path fs = (Inr b, fs_end) \<and>
    (case fs_end usdz_path of None \<Rightarrow> True | Some f \<Rightarrow> fsize f \<le> 1000) \<longrightarrow>
      b = False)"
proof (intro conjI impI)
  assume c: "convert_to_usdz env obj_path usdz_path fs = (Inr True, fs_end)"
  obtain r0 fs0 where t: "tool_attempt env obj_path usdz_path fs = (r0, fs0)"
    by (cases "tool_attempt env obj_path usdz_path fs")
  show "\<exists>f. fs_end usdz_path = Some f \<and> 1000 < fsize f"
  proof (cases "r0 = Inr True")
    case True
    with t c have "tool_attempt env obj_path usdz_path fs = (Inr True, fs_end)"
      by (simp add: convert_tool_success)
    then show ?thesis by (rule tool_attempt_True)
  next
    case False
    with t c have "fallback_caught env obj_path usdz_path fs0 = (Inr True, fs_end)"
      by (simp add: convert_fallthrough)
    then have "fallback env obj_path usdz_path fs0 = (Inr True, fs_end)"
      by (simp add: fallback_caught_True_iff)
    then show ?thesis by (rule fallback_True)
  qed
next
  assume "usdzconvert env obj_path usdz_path fs = (Inr 0, fs_tool) \<and>
    (case fs_tool usdz_path of None \<Rightarrow> True | Some f \<Rightarrow> fsize f \<le> 1000)"
  then show "tool_attempt env obj_path usdz_path fs = (Inr False, fs_tool)"
    by (auto simp: tool_attempt_def size_guard_eq split: option.splits)
next
  assume a: "fallback env obj_path usdz_path fs = (Inr b, fs_end) \<and>
    (case fs_end usdz_path of None \<Rightarrow> True | Some f \<Rightarrow> fsize f \<le> 1000)"
  show "b = False"
  proof (rule ccontr)
    assume "b \<noteq> False"
    with a have "fallback env obj_path usdz_path fs = (Inr True, fs_end)" by simp
    from fallback_True [OF this] a show False by auto
  qed
qed

theorem C9_witness:
  "(\<exists>f. snd (convert_to_usdz env_tool ''m.obj'' ''m.usdz'' triangle_fs) ''m.usdz'' = Some f \<and>
        1000 < fsize f) \<and>
   (\<exists>f. snd (convert_to_usdz env_large ''m.obj'' ''m.usdz'' triangle_fs) ''m.usdz'' = Some f \<and>
        1000 < fsize f) \<and>
   tool_attempt (env0\<lparr>usdzconvert := (\<lambda>a b fs. (Inr 0, fs))\<rparr>) ''m.obj'' ''m.usdz'' triangle_fs =
     (Inr False, triangle_fs) \<and>
   fst (fallback env0 ''m.obj'' ''m.usdz'' triangle_fs) = Inr False"
proof -
  let ?e = "env0\<lparr>usdzconvert := (\<lambda>a b fs. (Inr 0, fs))\<rparr>"
  let ?end = "triangle_fs(''m.usdz'' \<mapsto> model_archive env0 (usd_content triangle_mesh))"
  have c1: "convert_to_usdz env_tool ''m.obj'' ''m.usdz'' triangle_fs =
      (Inr True, snd (convert_to_usdz env_tool ''m.obj'' ''m.usdz'' triangle_fs))"
    by (simp add: triangle_run_env_tool)
  have c2: "convert_to_usdz env_large ''m.obj'' ''m.usdz'' triangle_fs =
      (Inr True, snd (convert_to_usdz env_large ''m.obj'' ''m.usdz'' triangle_fs))"
    by (simp add: triangle_run_env_large)
  have u: "usdzconvert ?e ''m.obj'' ''m.usdz'' triangle_fs = (Inr 0, triangle_fs)"
    by simp
  have n: "triangle_fs ''m.usdz'' = None"
    by (simp add: triangle_fs_simps)
  have f: "fallback env0 ''m.obj'' ''m.usdz'' triangle_fs = (Inr False, ?end)"
    by (simp add: triangle_run env0_simps triangle_doc_length)
  have s: "fsize (model_archive env0 (usd_content triangle_mesh)) \<le> 1000"
    by (simp add: model_archive_def env0_simps triangle_doc_length)
  from C9_size_guard [where env = env_tool and obj_path = "''m.obj''" and usdz_path = "''m.usdz''"
      and fs = triangle_fs
      and fs_end = "snd (convert_to_usdz env_tool ''m.obj'' ''m.usdz'' triangle_fs)"] c1
  have a: "\<exists>f. snd (convert_to_usdz env_tool ''m.obj'' ''m.usdz'' triangle_fs) ''m.usdz'' = Some f \<and>
        1000 < fsize f"
    by blast
  from C9_size_guard [where env = env_large and obj_path = "''m.obj''" and usdz_path = "''m.usdz''"
      and fs = triangle_fs
      and fs_end = "snd (convert_to_usdz env_large ''m.obj'' ''m.usdz'' triangle_fs)"] c2
  have b: "\<exists>f. snd (convert_to_usdz env_large ''m.obj'' ''m.usdz'' triangle_fs) ''m.usdz'' = Some f \<and>
        1000 < fsize f"
    by blast
  from C9_size_guard [where env = ?e and obj_path = "''m.obj''" and usdz_path = "''m.usdz''"
      and fs = triangle_fs and fs_tool = triangle_fs] u n
  have c: "tool_attempt ?e ''m.obj'' ''m.usdz'' triangle_fs = (Inr False, triangle_fs)"
    by simp
  from C9_size_guard [where env = env0 and obj_path = "''m.obj''" and usdz_path = "''m.usdz''"
      and fs = triangle_fs and b = False and fs_end = ?end] f
  have d: "fst (fallback env0 ''m.obj'' ''m.usdz'' triangle_fs) = Inr False"
    by simp
  from a b c d show ?thesis by blast
qed

text \<open>
  C10 (as amended). A face index is checked against the number of vertices read before the
  face line, not against the number of vertices of the whole file: for a face line \<open>raw\<close>
  after the lines \<open>pre\<close>, the face is kept exactly when it has three fields and each of
  the first three is an integer \<open>j\<close> (0-based) with \<open>0 \<le> j\<close> and \<open>j\<close> below the number of
  vertex lines in \<open>pre\<close>. A face line one of whose first three fields names a vertex that
  is only defined later is dropped, whatever lines follow it: reading the file gives what
  reading it without that line gives. A field whose 1-based value is 0 or less resolves
  against no number of vertices. Fields after the third are not read.
\<close>

theorem C10_checked_against_vertices_so_far:
  "is_face_line raw \<longrightarrow>
     (\<exists>m1. parse_obj env pre = Inr m1 \<and> length (vertices m1) = vertex_count env pre \<and>
        parse_obj env (pre @ raw # post) =
          parse_lines env
            (if retained_face (int_max_str_digits env) (vertex_count env pre) raw
             then m1\<lparr>faces := faces m1 @ face_of (int_max_str_digits env) raw\<rparr> else m1) post) \<and>
     (retained_face (int_max_str_digits env) (vertex_count env pre) raw \<longleftrightarrow>
        3 \<le> length (face_fields raw) \<and>
        (\<forall>q\<in>set (take 3 (face_fields raw)).
           \<exists>j. v_idx (int_max_str_digits env) q = Inr j \<and> 0 \<le> j \<and> j < int (vertex_count env pre))) \<and>
     (p \<in> set (take 3 (face_fields raw)) \<and> v_idx (int_max_str_digits env) p = Inr i \<and>
        int (vertex_count env pre) \<le> i \<longrightarrow>
        parse_obj env (pre @ raw # post) = parse_obj env (pre @ post)) \<and>
     (p \<in> set (take 3 (face_fields raw)) \<and>
        py_int (int_max_str_digits env) (takeWhile (\<lambda>c. c \<noteq> CHR ''/'') p) = Inr k \<and> k \<le> 0 \<longrightarrow>
        (\<forall>n. \<not> resolves (int_max_str_digits env) n p) \<and>
        parse_obj env (pre @ raw # post) = parse_obj env (pre @ post))"
proof (intro impI conjI)
  let ?d = "int_max_str_digits env"
  let ?n = "vertex_count env pre"
  assume fl: "is_face_line raw"
  obtain m1 where m1: "parse_obj env pre = Inr m1" using parse_obj_total by blast
  note len = parse_obj_vertex_count [OF m1]
  have "parse_obj env (pre @ raw # post) =
      parse_lines env (if retained_face ?d ?n raw then m1\<lparr>faces := faces m1 @ face_of ?d raw\<rparr> else m1) post"
    using m1 len fl by (simp add: parse_obj_snoc parse_line_eq face_not_vertex)
  with m1 len show "\<exists>m1. parse_obj env pre = Inr m1 \<and> length (vertices m1) = ?n \<and>
        parse_obj env (pre @ raw # post) =
          parse_lines env (if retained_face ?d ?n raw then m1\<lparr>faces := faces m1 @ face_of ?d raw\<rparr> else m1) post"
    by blast
  from fl show "retained_face ?d ?n raw \<longleftrightarrow>
        3 \<le> length (face_fields raw) \<and>
        (\<forall>q\<in>set (take 3 (face_fields raw)). \<exists>j. v_idx ?d q = Inr j \<and> 0 \<le> j \<and> j < int ?n)"
    by (simp add: retained_face_iff)
  {
    assume "p \<in> set (take 3 (face_fields raw)) \<and> v_idx ?d p = Inr i \<and> int ?n \<le> i"
    then have "\<not> resolves ?d ?n p" and "p \<in> set (take 3 (face_fields raw))"
      by (simp_all add: resolves_iff)
    then have "\<not> retained_face ?d ?n raw"
      by (auto simp: retained_face_def list_all_iff)
    from dropped_face_line [OF fl this]
    show "parse_obj env (pre @ raw # post) = parse_obj env (pre @ post)" .
  }
  {
    assume a: "p \<in> set (take 3 (face_fields raw)) \<and>
        py_int ?d (takeWhile (\<lambda>c. c \<noteq> CHR ''/'') p) = Inr k \<and> k \<le> 0"
    then have nr: "\<And>n. \<not> resolves ?d n p"
      using nonpositive_never_resolves by blast
    then show "\<forall>n. \<not> resolves ?d n p" by blast
    from a nr have "\<not> retained_face ?d ?n raw"
      by (auto simp: retained_face_def list_all_iff)
    from dropped_face_line [OF fl this]
    show "parse_obj env (pre @ raw # post) = parse_obj env (pre @ post)" .
  }
qed

theorem C10_witness:
  "vertex_count env0 vertex_lines3 = 3 \<and>
   vertex_count env0 (vertex_lines3 @ ''f 1 2 4'' # [''v 1 1 0'']) = 4 \<and>
   v_idx 4300 ''4'' = Inr 3 \<and>
   parse_obj env0 (vertex_lines3 @ ''f 1 2 4'' # [''v 1 1 0'']) =
     parse_obj env0 (vertex_lines3 @ [''v 1 1 0'']) \<and>
   \<not> resolves 4300 3 ''0'' \<and>
   parse_obj env0 (vertex_lines3 @ ''f 0 1 2'' # []) = parse_obj env0 (vertex_lines3 @ [])"
proof -
  have d: "int_max_str_digits env0 = 4300" by (simp add: env0_simps)
  have f1: "is_face_line ''f 1 2 4''" and f2: "is_face_line ''f 0 1 2''"
    by (simp_all add: is_face_line_eval)
  have n3: "vertex_count env0 vertex_lines3 = 3"
    by (simp add: vertex_lines3_vertex_count env0_simps)
  have n4: "vertex_count env0 (vertex_lines3 @ ''f 1 2 4'' # [''v 1 1 0'']) = 4"
    using n3 extra_vertex_line [of env0] face_not_vertex [OF f1, of env0]
    by (simp add: vertex_count_append env0_simps) (simp add: vertex_count_def)
  have p1: "''4'' \<in> set (take 3 (face_fields ''f 1 2 4''))"
    by (simp add: face_fields_eval)
  have v1: "v_idx 4300 ''4'' = Inr 3" by (rule v_idx_digit)
  have p2: "''0'' \<in> set (take 3 (face_fields ''f 0 1 2''))"
    by (simp add: face_fields_eval)
  have k2: "py_int 4300 (takeWhile (\<lambda>c. c \<noteq> CHR ''/'') ''0'') = Inr 0"
    by (auto simp: str_eval)
  from C10_checked_against_vertices_so_far
    [of "''f 1 2 4''" env0 vertex_lines3 "[''v 1 1 0'']" "''4''" 3 0] f1 n3 p1 v1 d
  have a: "parse_obj env0 (vertex_lines3 @ ''f 1 2 4'' # [''v 1 1 0'']) =
     parse_obj env0 (vertex_lines3 @ [''v 1 1 0''])"
    by simp
  from C10_checked_against_vertices_so_far
    [of "''f 0 1 2''" env0 vertex_lines3 "[]" "''0''" 0 0] f2 p2 k2 d
  have b: "\<not> resolves 4300 3 ''0'' \<and>
     parse_obj env0 (vertex_lines3 @ ''f 0 1 2'' # []) = parse_obj env0 (vertex_lines3 @ [])"
    by simp
  from n3 n4 v1 a b show ?thesis by blast
qed

text \<open>
  The claim as stated fails for a reference in a fourth field: after three vertices the
  line \<open>f 1 2 3 4\<close> names vertex 4, which is defined on the next line, and the face is
  kept.
\<close>

theorem C10_counterexample:
  "is_face_line ''f 1 2 3 4'' \<and>
   ''4'' \<in> set (face_fields ''f 1 2 3 4'') \<and>
   v_idx 4300 ''4'' = Inr 3 \<and>
   vertex_count env0 vertex_lines3 = 3 \<and>
   parse_obj env0 (vertex_lines3 @ [''f 1 2 3 4'', ''v 1 1 0'']) =
     Inr \<lparr>vertices = [''(0.0, 0.0, 0.0)'', ''(1.0, 0.0, 0.0)'', ''(0.0, 1.0, 0.0)'',
                       ''(1.0, 1.0, 0.0)''],
          faces = [0, 1, 2]\<rparr> \<and>
   parse_obj env0 (vertex_lines3 @ [''f 1 2 3 4'', ''v 1 1 0'']) \<noteq>
     parse_obj env0 (vertex_lines3 @ [''v 1 1 0''])"
  by (simp add: is_face_line_eval face_fields_eval v_idx_digit vertex_lines3_vertex_count
      quad_parse env0_simps)

end
